theory Spec2Isabelle
  imports Main "HOL-Library.Word"
begin

unbundle bit_operations_syntax

section \<open>SimpleFS: the disk emulator and the file system layer\<close>

text \<open>
  A shallow embedding of \<^verbatim>\<open>simple-file-system/src/disk.c\<close> and
  \<^verbatim>\<open>simple-file-system/src/fs.c\<close>. Memory that C addresses through a pointer
  (a block's bytes, the caller's data buffer, the free-block bitmap, the device's
  blocks) is a function from the index to the cell, updated pointwise. C structures are
  records, \<^verbatim>\<open>uint32_t\<close> is \<open>32 word\<close>, \<^verbatim>\<open>size_t\<close> is \<open>nat\<close> (with the
  wrap-around written out where a subtraction can wrap), \<^verbatim>\<open>ssize_t\<close> results are
  \<open>int\<close>, and every loop is a recursive function over the list of its indices.
\<close>

subsection \<open>Constants of the headers\<close>

type_synonym byte = "8 word"
type_synonym uint32 = "32 word"
type_synonym block = "nat \<Rightarrow> byte"
type_synonym bitmap = "nat \<Rightarrow> bool"

text \<open>
  Modelled from the spec: the headers \<^verbatim>\<open>sfs/disk.h\<close> and \<^verbatim>\<open>sfs/fs.h\<close> are
  not among the sources. The spec fixes the shape of the layout (a superblock of four
  unsigned integers in block 0; inode records holding a validity flag, a size, a
  fixed-length array of direct pointers and one indirect pointer; pointer blocks with
  block size / pointer size entries), and \<^verbatim>\<open>fs.c\<close> line 226 gives 128 inodes per
  block. The values below are those of that layout with 4-byte fields.
\<close>

definition BLOCK_SIZE :: nat where
  "BLOCK_SIZE = 4096"

definition MAGIC_NUMBER :: uint32 where
  "MAGIC_NUMBER = 0xf0f03410"

definition INODES_PER_BLOCK :: nat where
  "INODES_PER_BLOCK = 128"

definition POINTERS_PER_INODE :: nat where
  "POINTERS_PER_INODE = 5"

definition POINTERS_PER_BLOCK :: nat where
  "POINTERS_PER_BLOCK = 1024"

text \<open>The bytes of one inode record: valid, size, the direct pointers, indirect.\<close>

definition INODE_BYTES :: nat where
  "INODE_BYTES = 4 * (POINTERS_PER_INODE + 3)"

subsection \<open>The views of a block\<close>

text \<open>
  \<^verbatim>\<open>union Block\<close> overlays the superblock, the inode array, the pointer array and the
  raw bytes. The model keeps the bytes and reads the other members through them, least
  significant byte first.
\<close>

definition rd32 :: "block \<Rightarrow> nat \<Rightarrow> uint32" where
  "rd32 b off = ucast (b off) OR push_bit 8 (ucast (b (off + 1)))
     OR push_bit 16 (ucast (b (off + 2))) OR push_bit 24 (ucast (b (off + 3)))"

definition wr32 :: "block \<Rightarrow> nat \<Rightarrow> uint32 \<Rightarrow> block" where
  "wr32 b off w = b(off := ucast w, off + 1 := ucast (drop_bit 8 w),
     off + 2 := ucast (drop_bit 16 w), off + 3 := ucast (drop_bit 24 w))"

definition empty_block :: block where
  "empty_block = (\<lambda>_. 0)"

record SuperBlock =
  magic_number :: uint32
  sb_blocks :: uint32
  inode_blocks :: uint32
  inodes :: uint32

record Inode =
  valid :: uint32
  isize :: uint32
  direct :: "uint32 list"
  indirect :: uint32

definition block_super :: "block \<Rightarrow> SuperBlock" where
  "block_super b = \<lparr>magic_number = rd32 b 0, sb_blocks = rd32 b 4,
     inode_blocks = rd32 b 8, inodes = rd32 b 12\<rparr>"

definition block_inodes :: "block \<Rightarrow> nat \<Rightarrow> Inode" where
  "block_inodes b j = \<lparr>valid = rd32 b (INODE_BYTES * j),
     isize = rd32 b (INODE_BYTES * j + 4),
     direct = map (\<lambda>k. rd32 b (INODE_BYTES * j + 8 + 4 * k)) [0..<POINTERS_PER_INODE],
     indirect = rd32 b (INODE_BYTES * j + 8 + 4 * POINTERS_PER_INODE)\<rparr>"

definition set_block_inodes :: "block \<Rightarrow> nat \<Rightarrow> Inode \<Rightarrow> block" where
  "set_block_inodes b j node =
     wr32 (fold (\<lambda>k b'. wr32 b' (INODE_BYTES * j + 8 + 4 * k) (direct node ! k))
             [0..<POINTERS_PER_INODE]
             (wr32 (wr32 b (INODE_BYTES * j) (valid node)) (INODE_BYTES * j + 4) (isize node)))
       (INODE_BYTES * j + 8 + 4 * POINTERS_PER_INODE) (indirect node)"

definition block_pointers :: "block \<Rightarrow> nat \<Rightarrow> uint32" where
  "block_pointers b l = rd32 b (4 * l)"

definition set_block_pointers :: "block \<Rightarrow> nat \<Rightarrow> uint32 \<Rightarrow> block" where
  "set_block_pointers b l p = wr32 b (4 * l) p"

text \<open>\<^verbatim>\<open>Inode iblank = {0}\<close>.\<close>

definition iblank :: Inode where
  "iblank = \<lparr>valid = 0, isize = 0, direct = replicate POINTERS_PER_INODE 0, indirect = 0\<rparr>"

text \<open>\<^verbatim>\<open>memcpy(dst + doff, src + soff, n)\<close>.\<close>

definition memcpy :: "(nat \<Rightarrow> byte) \<Rightarrow> nat \<Rightarrow> (nat \<Rightarrow> byte) \<Rightarrow> nat \<Rightarrow> nat \<Rightarrow> (nat \<Rightarrow> byte)" where
  "memcpy dst doff src soff n =
     (\<lambda>i. if doff \<le> i \<and> i < doff + n then src (soff + (i - doff)) else dst i)"

subsection \<open>disk.c\<close>

text \<open>
  The device: its block count, its counters, the blocks of the backing file, and the
  schedule of the transfers that the operating system will fail (\<open>True\<close> = the next
  \<^verbatim>\<open>lseek\<close>/\<^verbatim>\<open>read\<close>/\<^verbatim>\<open>write\<close> fails; the empty schedule is a device
  without faults). A failed transfer leaves the file and the buffer as they were.
\<close>

record Disk =
  blocks :: nat
  reads :: nat
  writes :: nat
  image :: "nat \<Rightarrow> block"
  faults :: "bool list"

definition transfer_fails :: "Disk \<Rightarrow> bool" where
  "transfer_fails d = (case faults d of [] \<Rightarrow> False | f # _ \<Rightarrow> f)"

definition after_transfer :: "Disk \<Rightarrow> Disk" where
  "after_transfer d = d\<lparr>faults := tl (faults d)\<rparr>"

text \<open>
  \<^verbatim>\<open>disk_open\<close>: refuses more than 1000 blocks; \<^verbatim>\<open>truncate\<close> sizes the file, so
  that a new path gives a device of zero bytes. \<open>file\<close> is the former content of the
  path, \<open>len\<close> its length in blocks.
\<close>

definition disk_open :: "(nat \<Rightarrow> block) \<Rightarrow> nat \<Rightarrow> nat \<Rightarrow> Disk option" where
  "disk_open file len n =
     (if n > 1000 then None
      else Some \<lparr>blocks = n, reads = 0, writes = 0,
             image = (\<lambda>i. if i < len \<and> i < n then file i else empty_block), faults = []\<rparr>)"

text \<open>
  \<^verbatim>\<open>disk_sanity_check\<close>; every caller passes the address of a local buffer, so the
  check of the data pointer always passes.
\<close>

definition disk_sanity_check :: "Disk option \<Rightarrow> nat \<Rightarrow> bool" where
  "disk_sanity_check disk blk = (case disk of None \<Rightarrow> False | Some d \<Rightarrow> blk < blocks d)"

text \<open>
  \<^verbatim>\<open>disk_read\<close> returns \<^verbatim>\<open>BLOCK_SIZE\<close> and fills the buffer, or returns
  \<^verbatim>\<open>DISK_FAILURE\<close> and leaves it: \<open>Some\<close> the block read, or \<open>None\<close>.
\<close>

definition disk_read :: "Disk option \<Rightarrow> nat \<Rightarrow> block option \<times> Disk option" where
  "disk_read disk blk =
     (case disk of
        None \<Rightarrow> (None, disk)
      | Some d \<Rightarrow>
          if \<not> disk_sanity_check disk blk then (None, disk)
          else if transfer_fails d then (None, Some (after_transfer d))
          else (Some (image d blk), Some ((after_transfer d)\<lparr>reads := reads d + 1\<rparr>)))"

text \<open>\<^verbatim>\<open>disk_write\<close>: \<open>True\<close> for \<^verbatim>\<open>BLOCK_SIZE\<close>, \<open>False\<close> for \<^verbatim>\<open>DISK_FAILURE\<close>.\<close>

definition disk_write :: "Disk option \<Rightarrow> nat \<Rightarrow> block \<Rightarrow> bool \<times> Disk option" where
  "disk_write disk blk data =
     (case disk of
        None \<Rightarrow> (False, disk)
      | Some d \<Rightarrow>
          if \<not> disk_sanity_check disk blk then (False, disk)
          else if transfer_fails d then (False, Some (after_transfer d))
          else (True, Some ((after_transfer d)\<lparr>writes := writes d + 1,
                  image := (image d)(blk := data)\<rparr>)))"

subsection \<open>fs.c: the file system structure\<close>

text \<open>
  \<^verbatim>\<open>fs->disk\<close> and \<^verbatim>\<open>fs->free_blocks\<close> are pointers: \<open>None\<close> is \<^verbatim>\<open>NULL\<close>.
  The device a mounted file system points to is held in the record, so an operation on
  the file system returns it with the device as the operation left it.

  \<open>overrun\<close> is not a member of the C structure. It records that the execution has
  read or written outside an array (the bitmap at lines 171, 175, 180 and 264, a block
  buffer at lines 334 and 357, the pointer array at lines 348 and 455): C gives such an
  execution no meaning, so once \<open>overrun\<close> is set, what the model returns says nothing
  about the code. No function resets it.
\<close>

record FileSystem =
  disk :: "Disk option"
  free_blocks :: "bitmap option"
  meta_data :: SuperBlock
  overrun :: bool

text \<open>
  \<^verbatim>\<open>fs->free_blocks[i]\<close> and \<^verbatim>\<open>fs->free_blocks[i] = v\<close>. Wherever the source
  reaches them the bitmap is allocated; the \<open>None\<close> cases stand for a \<^verbatim>\<open>NULL\<close>
  dereference.
\<close>

definition bitmap_get :: "FileSystem \<Rightarrow> nat \<Rightarrow> bool" where
  "bitmap_get fs i = (case free_blocks fs of None \<Rightarrow> False | Some fb \<Rightarrow> fb i)"

definition bitmap_set :: "FileSystem \<Rightarrow> nat \<Rightarrow> bool \<Rightarrow> FileSystem" where
  "bitmap_set fs i v = fs\<lparr>free_blocks := map_option (\<lambda>fb. fb(i := v)) (free_blocks fs)\<rparr>"

text \<open>
  \<^verbatim>\<open>fs->free_blocks[p] = v\<close> where \<open>p\<close> is a block pointer read from the device and
  nothing has compared it to the size of the bitmap (lines 171, 175, 180 and 264). The
  bitmap has one entry for each block of the device: \<^verbatim>\<open>fs_initialize_free_block_bitmap\<close>
  allocates \<^verbatim>\<open>sb->super.blocks\<close> bytes after line 152 has found that number equal to
  \<^verbatim>\<open>disk->blocks\<close>, and neither changes while the bitmap exists. A store outside
  it, or through \<^verbatim>\<open>NULL\<close>, sets \<open>overrun\<close>.
\<close>

definition bitmap_store :: "FileSystem \<Rightarrow> nat \<Rightarrow> bool \<Rightarrow> FileSystem" where
  "bitmap_store fs p v =
     (case disk fs of
        None \<Rightarrow> fs\<lparr>overrun := True\<rparr>
      | Some d \<Rightarrow>
          if free_blocks fs \<noteq> None \<and> p < blocks d then bitmap_set fs p v
          else fs\<lparr>overrun := True\<rparr>)"

subsection \<open>fs\_format\<close>

text \<open>The loop of lines 117 to 119: clear the blocks \<open>1, 2, ...\<close>; stop at a failed write.\<close>

fun format_clear :: "nat list \<Rightarrow> Disk option \<Rightarrow> bool \<times> Disk option" where
  "format_clear [] d = (True, d)"
| "format_clear (i # rest) d =
     (case disk_write d i empty_block of
        (False, d') \<Rightarrow> (False, d')
      | (True, d') \<Rightarrow> format_clear rest d')"

definition fs_format :: "FileSystem \<Rightarrow> Disk \<Rightarrow> bool \<times> FileSystem \<times> Disk option" where
  "fs_format fs d =
     (if free_blocks fs \<noteq> None then (False, fs, Some d)
      else
        let b = (word_of_nat (blocks d) :: uint32);
            ib = (if b mod 10 = 0 then b div 10 else b div 10 + 1);
            fs' = fs\<lparr>meta_data := \<lparr>magic_number = MAGIC_NUMBER, sb_blocks = b,
                     inode_blocks = ib, inodes = ib * word_of_nat INODES_PER_BLOCK\<rparr>\<rparr>
        in case format_clear [1..<unat b] (Some d) of (ok, d') \<Rightarrow> (ok, fs', d'))"

subsection \<open>fs\_mount\<close>

text \<open>\<^verbatim>\<open>fs_initialize_free_block_bitmap\<close>: \<^verbatim>\<open>calloc\<close>, then the loop over the blocks.\<close>

definition fs_initialize_free_block_bitmap :: "FileSystem \<Rightarrow> block \<Rightarrow> FileSystem" where
  "fs_initialize_free_block_bitmap fs sb =
     fold (\<lambda>i fs'. if i \<le> unat (inode_blocks (block_super sb))
                    then bitmap_set (bitmap_set fs' i True) i False
                    else bitmap_set fs' i True)
       [0..<unat (sb_blocks (block_super sb))]
       (fs\<lparr>free_blocks := Some (\<lambda>_. False)\<rparr>)"

text \<open>Lines 169 to 173: the direct pointers of one inode.\<close>

definition mount_direct :: "Inode \<Rightarrow> FileSystem \<Rightarrow> FileSystem" where
  "mount_direct node fs =
     fold (\<lambda>k fs'. if direct node ! k \<noteq> 0 then bitmap_store fs' (unat (direct node ! k)) False
                    else fs')
       [0..<POINTERS_PER_INODE] fs"

text \<open>Lines 178 to 182: the pointers of one indirect block.\<close>

definition mount_pointers :: "block \<Rightarrow> FileSystem \<Rightarrow> FileSystem" where
  "mount_pointers indirect_blk fs =
     fold (\<lambda>l fs'. if block_pointers indirect_blk l \<noteq> 0
                    then bitmap_store fs' (unat (block_pointers indirect_blk l)) False
                    else fs')
       [0..<POINTERS_PER_BLOCK] fs"

text \<open>
  Lines 166 to 185: the inodes of one inode block. \<open>False\<close> is the \<^verbatim>\<open>return false\<close>
  of line 176.
\<close>

fun mount_inodes :: "nat list \<Rightarrow> block \<Rightarrow> FileSystem \<Rightarrow> bool \<times> FileSystem" where
  "mount_inodes [] inode_blk fs = (True, fs)"
| "mount_inodes (j # rest) inode_blk fs =
     (let node = block_inodes inode_blk j in
      if valid node \<noteq> 0 then
        let fs1 = mount_direct node fs in
        if indirect node \<noteq> 0 then
          let fs2 = bitmap_store fs1 (unat (indirect node)) False in
          case disk_read (disk fs2) (unat (indirect node)) of
            (None, d) \<Rightarrow> (False, fs2\<lparr>disk := d\<rparr>)
          | (Some indirect_blk, d) \<Rightarrow>
              mount_inodes rest inode_blk (mount_pointers indirect_blk (fs2\<lparr>disk := d\<rparr>))
        else mount_inodes rest inode_blk fs1
      else mount_inodes rest inode_blk fs)"

text \<open>
  Lines 164 to 186: the inode blocks. The result of the read of line 165 is not checked:
  after a failed read \<^verbatim>\<open>inode_blk\<close> still holds what it held before.
\<close>

fun mount_blocks :: "nat list \<Rightarrow> block \<Rightarrow> FileSystem \<Rightarrow> bool \<times> FileSystem" where
  "mount_blocks [] inode_blk fs = (True, fs)"
| "mount_blocks (i # rest) inode_blk fs =
     (case disk_read (disk fs) i of
        (r, d) \<Rightarrow>
          let inode_blk' = (case r of None \<Rightarrow> inode_blk | Some b \<Rightarrow> b) in
          case mount_inodes [0..<INODES_PER_BLOCK] inode_blk' (fs\<lparr>disk := d\<rparr>) of
            (False, fs') \<Rightarrow> (False, fs')
          | (True, fs') \<Rightarrow> mount_blocks rest inode_blk' fs')"

text \<open>
  \<^verbatim>\<open>fs_mount\<close>. \<open>uninit\<close> is what the local \<^verbatim>\<open>inode_blk\<close>, declared without an
  initialiser, holds before the first read. The result carries the device as well, for
  the returns that come before \<^verbatim>\<open>fs->disk = disk\<close>.
\<close>

definition fs_mount :: "block \<Rightarrow> FileSystem \<Rightarrow> Disk option \<Rightarrow> bool \<times> FileSystem \<times> Disk option" where
  "fs_mount uninit fs dk =
     (if free_blocks fs \<noteq> None then (False, fs, dk)
      else case dk of
        None \<Rightarrow> (False, fs, dk)
      | Some d0 \<Rightarrow>
         (case disk_read dk 0 of
            (None, d) \<Rightarrow> (False, fs, d)
          | (Some sb, d) \<Rightarrow>
              if magic_number (block_super sb) \<noteq> MAGIC_NUMBER then (False, fs, d)
              else if unat (sb_blocks (block_super sb)) \<noteq> blocks d0 then (False, fs, d)
              else if inode_blocks (block_super sb) \<noteq>
                        sb_blocks (block_super sb) div 10 +
                          (if sb_blocks (block_super sb) mod 10 \<noteq> 0 then 1 else 0)
                then (False, fs, d)
              else if inodes (block_super sb) \<noteq>
                        inode_blocks (block_super sb) * word_of_nat INODES_PER_BLOCK
                then (False, fs, d)
              else
                let fs1 = fs\<lparr>disk := d, meta_data := block_super sb\<rparr>;
                    fs2 = fs_initialize_free_block_bitmap fs1 sb
                in case mount_blocks [1..<unat (inode_blocks (block_super sb)) + 1] uninit fs2 of
                     (ok, fs3) \<Rightarrow> (ok, fs3, disk fs3)))"

definition fs_unmount :: "FileSystem \<Rightarrow> FileSystem" where
  "fs_unmount fs = fs\<lparr>disk := None, free_blocks := None\<rparr>"

subsection \<open>Loading and saving an inode\<close>

definition fs_load_inode :: "FileSystem \<Rightarrow> nat \<Rightarrow> Inode option \<times> FileSystem" where
  "fs_load_inode fs inode_number =
     (let block_num = inode_number div INODES_PER_BLOCK + 1;
          block_index = inode_number - (block_num - 1) * INODES_PER_BLOCK
      in case disk_read (disk fs) block_num of
           (None, d) \<Rightarrow> (None, fs\<lparr>disk := d\<rparr>)
         | (Some ib, d) \<Rightarrow>
             if valid (block_inodes ib block_index) = 0 then (None, fs\<lparr>disk := d\<rparr>)
             else (Some (block_inodes ib block_index), fs\<lparr>disk := d\<rparr>))"

definition fs_save_inode :: "FileSystem \<Rightarrow> nat \<Rightarrow> Inode \<Rightarrow> bool \<times> FileSystem" where
  "fs_save_inode fs inode_number node =
     (let block_num = inode_number div INODES_PER_BLOCK + 1;
          block_index = inode_number - (block_num - 1) * INODES_PER_BLOCK
      in case disk_read (disk fs) block_num of
           (None, d) \<Rightarrow> (False, fs\<lparr>disk := d\<rparr>)
         | (Some ib, d) \<Rightarrow>
             (case disk_write d block_num (set_block_inodes ib block_index node) of
                (ok, d') \<Rightarrow> (ok, fs\<lparr>disk := d'\<rparr>)))"

subsection \<open>fs\_create\<close>

text \<open>
  Lines 222 to 229: the slots of the inode block \<open>i\<close>. \<open>Some n\<close> is \<^verbatim>\<open>return n\<close>;
  after a failed write the scan goes on, with the flag still set in the buffer.
\<close>

fun create_slots :: "nat list \<Rightarrow> nat \<Rightarrow> block \<Rightarrow> Disk option \<Rightarrow> int option \<times> block \<times> Disk option" where
  "create_slots [] i blk d = (None, blk, d)"
| "create_slots (j # rest) i blk d =
     (if valid (block_inodes blk j) = 0 then
        let blk' = wr32 blk (INODE_BYTES * j) 1 in
        case disk_write d i blk' of
          (True, d') \<Rightarrow> (Some (int j + (int i - 1) * int INODES_PER_BLOCK), blk', d')
        | (False, d') \<Rightarrow> create_slots rest i blk' d'
      else create_slots rest i blk d)"

text \<open>Lines 220 to 231: the inode blocks; a block that cannot be read is skipped.\<close>

fun create_blocks :: "nat list \<Rightarrow> block \<Rightarrow> Disk option \<Rightarrow> int \<times> Disk option" where
  "create_blocks [] blk d = (- 1, d)"
| "create_blocks (i # rest) blk d =
     (case disk_read d i of
        (None, d1) \<Rightarrow> create_blocks rest blk d1
      | (Some blk1, d1) \<Rightarrow>
          (case create_slots [0..<INODES_PER_BLOCK] i blk1 d1 of
             (Some n, blk2, d2) \<Rightarrow> (n, d2)
           | (None, blk2, d2) \<Rightarrow> create_blocks rest blk2 d2))"

definition fs_create :: "FileSystem \<Rightarrow> int \<times> FileSystem" where
  "fs_create fs =
     (case create_blocks [1..<unat (inode_blocks (meta_data fs)) + 1] empty_block (disk fs) of
        (n, d) \<Rightarrow> (n, fs\<lparr>disk := d\<rparr>))"

subsection \<open>fs\_remove\<close>






subsection \<open>fs\_stat\<close>

definition fs_stat :: "FileSystem \<Rightarrow> nat \<Rightarrow> int \<times> FileSystem" where
  "fs_stat fs inode_number =
     (case fs_load_inode fs inode_number of
        (None, fs') \<Rightarrow> (- 1, fs')
      | (Some node, fs') \<Rightarrow> (uint (isize node), fs'))"

subsection \<open>fs\_read\<close>

text \<open>
  \<^verbatim>\<open>inode.size - offset\<close> is computed in \<^verbatim>\<open>size_t\<close> (64 bits) and wraps when the
  offset is beyond the size; \<^verbatim>\<open>to_read\<close> is then the whole block.
\<close>

definition read_count :: "Inode \<Rightarrow> nat \<Rightarrow> nat" where
  "read_count node offset =
     (let left = unat ((ucast (isize node) :: 64 word) - word_of_nat offset)
      in if BLOCK_SIZE > left then left else BLOCK_SIZE)"

text \<open>
  \<^verbatim>\<open>memcpy(data + bytes_read, read_block.data + block_pos, to_read)\<close> of lines 334
  and 357, where \<^verbatim>\<open>bytes_read\<close> is 0: the copy reads past the end of
  \<^verbatim>\<open>read_block\<close> when \<open>block_pos + to_read\<close> exceeds the block size.
\<close>

definition read_copy :: "FileSystem \<Rightarrow> nat \<Rightarrow> nat \<Rightarrow> FileSystem" where
  "read_copy fs block_pos to_read =
     (if block_pos + to_read \<le> BLOCK_SIZE then fs else fs\<lparr>overrun := True\<rparr>)"

text \<open>
  \<^verbatim>\<open>ind_blk.pointers[curr_iblk - POINTERS_PER_INODE]\<close> of line 348: the index is not
  compared to the number of pointers in a block.
\<close>

definition read_pointer :: "FileSystem \<Rightarrow> nat \<Rightarrow> FileSystem" where
  "read_pointer fs l = (if l < POINTERS_PER_BLOCK then fs else fs\<lparr>overrun := True\<rparr>)"

text \<open>
  The result is the returned count (\<open>- 1\<close> on error), the caller's buffer and the file
  system. Both branches copy from one block and return. The buffer is a function on all
  indices: a copy of more than \<open>len\<close> bytes shows as a change beyond index \<open>len\<close>.
\<close>

definition fs_read :: "FileSystem \<Rightarrow> nat \<Rightarrow> (nat \<Rightarrow> byte) \<Rightarrow> nat \<Rightarrow> nat \<Rightarrow> int \<times> (nat \<Rightarrow> byte) \<times> FileSystem" where
  "fs_read fs inode_number data len offset =
     (case fs_load_inode fs inode_number of
        (None, fs1) \<Rightarrow> (- 1, data, fs1)
      | (Some node, fs1) \<Rightarrow>
          let curr_iblk = offset div BLOCK_SIZE;
              block_pos = offset mod BLOCK_SIZE
          in
          if inode_number \<ge> unat (inode_blocks (meta_data fs1) * word_of_nat INODES_PER_BLOCK)
          then (- 1, data, fs1)
          else if free_blocks fs1 = None then (- 1, data, fs1)
          else if curr_iblk < POINTERS_PER_INODE then
            (case disk_read (disk fs1) (unat (direct node ! curr_iblk)) of
               (None, d) \<Rightarrow> (- 1, data, fs1\<lparr>disk := d\<rparr>)
             | (Some read_block, d) \<Rightarrow>
                 (int (read_count node offset),
                  memcpy data 0 read_block block_pos (read_count node offset),
                  read_copy (fs1\<lparr>disk := d\<rparr>) block_pos (read_count node offset)))
          else if indirect node \<noteq> 0 then
            (case disk_read (disk fs1) (unat (indirect node)) of
               (None, d) \<Rightarrow> (- 1, data, fs1\<lparr>disk := d\<rparr>)
             | (Some ind_blk, d) \<Rightarrow>
                 let fs2 = read_pointer fs1 (curr_iblk - POINTERS_PER_INODE) in
                 if block_pointers ind_blk (curr_iblk - POINTERS_PER_INODE) \<noteq> 0 then
                   (case disk_read d (unat (block_pointers ind_blk (curr_iblk - POINTERS_PER_INODE))) of
                      (None, d') \<Rightarrow> (- 1, data, fs2\<lparr>disk := d'\<rparr>)
                    | (Some read_block, d') \<Rightarrow>
                        (int (read_count node offset),
                         memcpy data 0 read_block block_pos (read_count node offset),
                         read_copy (fs2\<lparr>disk := d'\<rparr>) block_pos (read_count node offset)))
                 else (0, data, fs2\<lparr>disk := d\<rparr>))
          else (- 1, data, fs1))"

subsection \<open>fs\_find\_free\<close>

fun find_free_scan :: "nat list \<Rightarrow> FileSystem \<Rightarrow> int \<times> FileSystem" where
  "find_free_scan [] fs = (0, fs)"
| "find_free_scan (i # rest) fs =
     (if bitmap_get fs i then
        case disk_write (disk (bitmap_set fs i False)) i empty_block of
          (False, d) \<Rightarrow> (0, (bitmap_set fs i False)\<lparr>disk := d\<rparr>)
        | (True, d) \<Rightarrow> (int i, (bitmap_set fs i False)\<lparr>disk := d\<rparr>)
      else find_free_scan rest fs)"

definition fs_find_free :: "FileSystem \<Rightarrow> int \<times> FileSystem" where
  "fs_find_free fs = find_free_scan [0..<unat (sb_blocks (meta_data fs))] fs"

subsection \<open>fs\_write\<close>

text \<open>
  The state of the write loops: the file system, the inode in memory, the position in
  the block and the bytes written. \<^verbatim>\<open>to_write\<close> of lines 426 and 466:
\<close>

definition write_count :: "nat \<Rightarrow> nat \<Rightarrow> nat \<Rightarrow> nat" where
  "write_count block_pos len bytes_written =
     (if BLOCK_SIZE - block_pos \<le> len - bytes_written then BLOCK_SIZE - block_pos
      else len - bytes_written)"

text \<open>
  Lines 421 to 433 and 461 to 473, on the block \<open>p\<close>: read it (unchecked: after a failed
  read the buffer \<^verbatim>\<open>old_data\<close> holds \<open>uninit\<close>), copy \<^verbatim>\<open>to_write\<close> bytes of the
  data to the start of the buffer, write it back (unchecked).
\<close>

definition write_block :: "block \<Rightarrow> FileSystem \<Rightarrow> nat \<Rightarrow> (nat \<Rightarrow> byte) \<Rightarrow> nat \<Rightarrow> nat \<Rightarrow> FileSystem" where
  "write_block uninit fs p data bytes_written to_write =
     (case disk_read (disk fs) p of
        (r, d) \<Rightarrow>
          let old_data = (case r of None \<Rightarrow> uninit | Some b \<Rightarrow> b) in
          case disk_write d p (memcpy old_data 0 data bytes_written to_write) of
            (w, d') \<Rightarrow> fs\<lparr>disk := d'\<rparr>)"

text \<open>
  Lines 415 to 420: allocate the direct block \<open>i\<close> if the inode has none. The first
  component is \<open>True\<close> for \<^verbatim>\<open>goto END\<close>.
\<close>

definition alloc_direct :: "FileSystem \<Rightarrow> Inode \<Rightarrow> nat \<Rightarrow> bool \<times> FileSystem \<times> Inode" where
  "alloc_direct fs node i =
     (if direct node ! i = 0 then
        (case fs_find_free fs of
           (next_free, fs') \<Rightarrow>
             if next_free = 0 then (True, fs', node)
             else (False, fs', node\<lparr>direct := (direct node)[i := word_of_int next_free]\<rparr>))
      else (False, fs, node))"

text \<open>
  Lines 413 to 437. The first component is \<open>True\<close> for \<^verbatim>\<open>goto END\<close> and \<open>False\<close> when
  the loop runs to its end.
\<close>

fun write_direct :: "nat list \<Rightarrow> block \<Rightarrow> (nat \<Rightarrow> byte) \<Rightarrow> nat \<Rightarrow> FileSystem \<Rightarrow> Inode \<Rightarrow> nat \<Rightarrow> nat \<Rightarrow> bool \<times> FileSystem \<times> Inode \<times> nat \<times> nat" where
  "write_direct [] uninit data len fs node block_pos bytes_written =
     (False, fs, node, block_pos, bytes_written)"
| "write_direct (i # rest) uninit data len fs node block_pos bytes_written =
     (case alloc_direct fs node i of
        (True, fs1, node1) \<Rightarrow> (True, fs1, node1, block_pos, bytes_written)
      | (False, fs1, node1) \<Rightarrow>
          let to_write = write_count block_pos len bytes_written;
              fs2 = write_block uninit fs1 (unat (direct node1 ! i)) data bytes_written to_write
          in if bytes_written + to_write = len
             then (True, fs2, node1, block_pos, bytes_written + to_write)
             else write_direct rest uninit data len fs2 node1 0 (bytes_written + to_write))"

text \<open>
  Lines 455 to 460: allocate the data block for entry \<open>i\<close> of the indirect block \<open>ind\<close>
  (held at block \<open>ip\<close>) if there is none, and write the indirect block back (unchecked).
\<close>

definition alloc_pointer :: "FileSystem \<Rightarrow> nat \<Rightarrow> block \<Rightarrow> nat \<Rightarrow> bool \<times> FileSystem \<times> block" where
  "alloc_pointer fs ip ind i =
     (if block_pointers ind i = 0 then
        (case fs_find_free fs of
           (next_free, fs') \<Rightarrow>
             if next_free = 0 then (True, fs', ind)
             else
               (False,
                fs'\<lparr>disk := snd (disk_write (disk fs') ip (set_block_pointers ind i (word_of_int next_free)))\<rparr>,
                set_block_pointers ind i (word_of_int next_free)))
      else (False, fs, ind))"

text \<open>
  Lines 453 to 477, with the indirect block \<open>ind\<close> at block \<open>ip\<close>. The result is the
  file system and the bytes written, at \<^verbatim>\<open>END\<close>.
\<close>

fun write_pointers :: "nat list \<Rightarrow> block \<Rightarrow> (nat \<Rightarrow> byte) \<Rightarrow> nat \<Rightarrow> nat \<Rightarrow> FileSystem \<Rightarrow> block \<Rightarrow> nat \<Rightarrow> nat \<Rightarrow> FileSystem \<times> nat" where
  "write_pointers [] uninit data len ip fs ind block_pos bytes_written = (fs, bytes_written)"
| "write_pointers (i # rest) uninit data len ip fs ind block_pos bytes_written =
     (case alloc_pointer fs ip ind i of
        (True, fs1, ind1) \<Rightarrow> (fs1, bytes_written)
      | (False, fs1, ind1) \<Rightarrow>
          let to_write = write_count block_pos len bytes_written;
              fs2 = write_block uninit fs1 (unat (block_pointers ind1 i)) data bytes_written to_write
          in if bytes_written + to_write = len then (fs2, bytes_written + to_write)
             else write_pointers rest uninit data len ip fs2 ind1 0 (bytes_written + to_write))"

text \<open>Lines 444 to 448: allocate the indirect block if the inode has none.\<close>

definition alloc_indirect :: "FileSystem \<Rightarrow> Inode \<Rightarrow> bool \<times> FileSystem \<times> Inode" where
  "alloc_indirect fs node =
     (if indirect node = 0 then
        (case fs_find_free fs of
           (next_free, fs') \<Rightarrow>
             if next_free = 0 then (True, fs', node)
             else (False, fs', node\<lparr>indirect := word_of_int next_free\<rparr>))
      else (False, fs, node))"

text \<open>
  \<^verbatim>\<open>int i = curr_iblk - POINTERS_PER_INODE\<close> of line 453 converts a \<^verbatim>\<open>size_t\<close> to
  \<^verbatim>\<open>int\<close>. For a value that does not fit the result is implementation-defined; the
  model takes the usual one, the low 32 bits read as a signed number.
\<close>

definition to_int :: "nat \<Rightarrow> int" where
  "to_int n = sint (word_of_nat n :: 32 word)"

text \<open>
  Lines 444 to 477: allocate the indirect block, load it (unchecked: after a failed read
  \<^verbatim>\<open>ind_blk\<close> holds \<open>uninit\<close>), and walk its pointers from
  \<^verbatim>\<open>(int)(curr_iblk - POINTERS_PER_INODE)\<close>. When that index is negative the loop is
  entered (the bound is an \<^verbatim>\<open>int\<close> constant) and line 455 reads
  \<^verbatim>\<open>ind_blk.pointers[i]\<close> before the start of the array.
\<close>

definition write_indirect :: "block \<Rightarrow> (nat \<Rightarrow> byte) \<Rightarrow> nat \<Rightarrow> nat \<Rightarrow> FileSystem \<Rightarrow> Inode \<Rightarrow> nat \<Rightarrow> nat \<Rightarrow> FileSystem \<times> Inode \<times> nat" where
  "write_indirect uninit data len curr_iblk fs node block_pos bytes_written =
     (case alloc_indirect fs node of
        (True, fs1, node1) \<Rightarrow> (fs1, node1, bytes_written)
      | (False, fs1, node1) \<Rightarrow>
         (case disk_read (disk fs1) (unat (indirect node1)) of
            (r, d) \<Rightarrow>
              let ind_blk = (case r of None \<Rightarrow> uninit | Some b \<Rightarrow> b);
                  i = to_int (curr_iblk - POINTERS_PER_INODE)
              in
              if i < 0 then (fs1\<lparr>disk := d, overrun := True\<rparr>, node1, bytes_written)
              else
                case write_pointers [nat i..<POINTERS_PER_BLOCK]
                       uninit data len (unat (indirect node1)) (fs1\<lparr>disk := d\<rparr>) ind_blk
                       block_pos bytes_written of
                  (fs2, n) \<Rightarrow> (fs2, node1, n)))"

text \<open>\<^verbatim>\<open>END\<close>: lines 479 to 481; the result of the save is dropped.\<close>

definition write_end :: "FileSystem \<Rightarrow> nat \<Rightarrow> Inode \<Rightarrow> nat \<Rightarrow> int \<times> FileSystem" where
  "write_end fs inode_number node bytes_written =
     (case fs_save_inode fs inode_number (node\<lparr>isize := isize node + word_of_nat bytes_written\<rparr>) of
        (saved, fs') \<Rightarrow> (int bytes_written, fs'))"

text \<open>
  \<^verbatim>\<open>fs_write\<close>. \<open>uninit\<close> is what the locals \<^verbatim>\<open>old_data\<close> and \<^verbatim>\<open>ind_blk\<close>,
  declared without an initialiser, hold before they are read into.
\<close>

definition fs_write :: "block \<Rightarrow> FileSystem \<Rightarrow> nat \<Rightarrow> (nat \<Rightarrow> byte) \<Rightarrow> nat \<Rightarrow> nat \<Rightarrow> int \<times> FileSystem" where
  "fs_write uninit fs inode_number data len offset =
     (let curr_iblk = offset div BLOCK_SIZE;
          block_pos = offset mod BLOCK_SIZE
      in case fs_load_inode fs inode_number of
           (None, fs1) \<Rightarrow> (- 1, fs1)
         | (Some node, fs1) \<Rightarrow>
             if curr_iblk < POINTERS_PER_INODE then
               (case write_direct [curr_iblk..<POINTERS_PER_INODE] uninit data len fs1 node block_pos 0 of
                  (True, fs2, node2, block_pos2, n2) \<Rightarrow> write_end fs2 inode_number node2 n2
                | (False, fs2, node2, block_pos2, n2) \<Rightarrow>
                    (case write_indirect uninit data len POINTERS_PER_INODE fs2 node2 block_pos2 n2 of
                       (fs3, node3, n3) \<Rightarrow> write_end fs3 inode_number node3 n3))
             else
               (case write_indirect uninit data len curr_iblk fs1 node block_pos 0 of
                  (fs3, node3, n3) \<Rightarrow> write_end fs3 inode_number node3 n3))"

subsection \<open>Devices and states used in the statements\<close>

text \<open>A device of \<open>n\<close> zero blocks without faults, as \<^verbatim>\<open>disk_open\<close> makes on a new path.\<close>

definition zero_disk :: "nat \<Rightarrow> Disk" where
  "zero_disk n = \<lparr>blocks = n, reads = 0, writes = 0, image = (\<lambda>_. empty_block), faults = []\<rparr>"

text \<open>What a device pointer shows: its blocks, its block count, and that no fault is scheduled.\<close>

definition dk_image :: "Disk option \<Rightarrow> nat \<Rightarrow> block" where
  "dk_image dk = (case dk of None \<Rightarrow> (\<lambda>_. empty_block) | Some d \<Rightarrow> image d)"

definition dk_blocks :: "Disk option \<Rightarrow> nat" where
  "dk_blocks dk = (case dk of None \<Rightarrow> 0 | Some d \<Rightarrow> blocks d)"

definition dk_ok :: "Disk option \<Rightarrow> bool" where
  "dk_ok dk = (case dk of None \<Rightarrow> False | Some d \<Rightarrow> faults d = [])"

text \<open>
  The place of inode \<open>n\<close> in the inode table (block and index, as \<^verbatim>\<open>fs_load_inode\<close>
  and \<^verbatim>\<open>fs_save_inode\<close> compute them) and the record a device holds there.
\<close>

definition slot_block :: "nat \<Rightarrow> nat" where
  "slot_block n = n div INODES_PER_BLOCK + 1"

definition slot_index :: "nat \<Rightarrow> nat" where
  "slot_index n = n mod INODES_PER_BLOCK"

definition slot :: "Disk option \<Rightarrow> nat \<Rightarrow> Inode" where
  "slot dk n = block_inodes (dk_image dk (slot_block n)) (slot_index n)"

text \<open>A file system that is not mounted, with any cached superblock.\<close>

definition unmounted :: "SuperBlock \<Rightarrow> FileSystem" where
  "unmounted md = \<lparr>disk = None, free_blocks = None, meta_data = md, overrun = False\<rparr>"

text \<open>
  The blocks an inode refers to: through its direct pointers, through its indirect
  pointer, and through the pointers in the indirect block as the device holds it.
\<close>

definition direct_refs :: "Inode \<Rightarrow> nat set" where
  "direct_refs node =
     {unat (direct node ! j) | j. j < POINTERS_PER_INODE \<and> direct node ! j \<noteq> 0}"

definition pointer_refs :: "block \<Rightarrow> nat set" where
  "pointer_refs blk =
     {unat (block_pointers blk l) | l. l < POINTERS_PER_BLOCK \<and> block_pointers blk l \<noteq> 0}"

definition inode_refs :: "(nat \<Rightarrow> block) \<Rightarrow> Inode \<Rightarrow> nat set" where
  "inode_refs img node =
     direct_refs node \<union>
     (if indirect node = 0 then {}
      else insert (unat (indirect node)) (pointer_refs (img (unat (indirect node)))))"

text \<open>
  Concrete devices: a device of \<open>n\<close> blocks with a correct superblock in block 0, the
  other blocks given by \<open>img\<close>, and a fault schedule; a file system mounted on a device
  with a given bitmap; the record of a file.
\<close>

definition sb_block :: "nat \<Rightarrow> block" where
  "sb_block n =
     wr32 (wr32 (wr32 (wr32 empty_block 0 MAGIC_NUMBER) 4 (word_of_nat n))
        8 (word_of_nat ((n + 9) div 10)))
       12 (word_of_nat ((n + 9) div 10 * INODES_PER_BLOCK))"

definition device :: "nat \<Rightarrow> (nat \<Rightarrow> block) \<Rightarrow> bool list \<Rightarrow> Disk" where
  "device n img fl =
     \<lparr>blocks = n, reads = 0, writes = 0, image = img(0 := sb_block n), faults = fl\<rparr>"

definition mounted :: "Disk \<Rightarrow> bitmap \<Rightarrow> FileSystem" where
  "mounted d fb =
     \<lparr>disk = Some d, free_blocks = Some fb, meta_data = block_super (image d 0), overrun = False\<rparr>"

definition file_node :: "uint32 \<Rightarrow> uint32 list \<Rightarrow> uint32 \<Rightarrow> Inode" where
  "file_node sz ds ind = \<lparr>valid = 1, isize = sz, direct = ds, indirect = ind\<rparr>"

text \<open>
  Device A: ten blocks; inode 0 is a file of 5 bytes whose only block is block 2.
  File system A is mounted on it: blocks 0, 1 and 2 are in use.
\<close>

definition dev_a :: "bool list \<Rightarrow> Disk" where
  "dev_a fl =
     device 10 ((\<lambda>_. empty_block)(1 := set_block_inodes empty_block 0 (file_node 5 [2, 0, 0, 0, 0] 0))) fl"

definition fs_a :: "bool list \<Rightarrow> FileSystem" where
  "fs_a fl = mounted (dev_a fl) (\<lambda>i. 3 \<le> i \<and> i < 10)"

text \<open>The body of the loop of \<^verbatim>\<open>fs_initialize_free_block_bitmap\<close>.\<close>

definition init_step :: "nat \<Rightarrow> nat \<Rightarrow> FileSystem \<Rightarrow> FileSystem" where
  "init_step ib = (\<lambda>i fs'. if i \<le> ib then bitmap_set (bitmap_set fs' i True) i False
                               else bitmap_set fs' i True)"

text \<open>The four checks of the superblock in \<^verbatim>\<open>fs_mount\<close>, for a device of \<open>n\<close> blocks.\<close>

definition sb_valid :: "SuperBlock \<Rightarrow> nat \<Rightarrow> bool" where
  "sb_valid s n =
     (magic_number s = MAGIC_NUMBER \<and> unat (sb_blocks s) = n \<and>
      inode_blocks s = sb_blocks s div 10 + (if sb_blocks s mod 10 \<noteq> 0 then 1 else 0) \<and>
      inodes s = inode_blocks s * word_of_nat INODES_PER_BLOCK)"

text \<open>
  What \<^verbatim>\<open>fs_mount\<close> does after the checks: bind the device, cache the superblock
  \<open>sb\<close>, build the bitmap and scan the inode table.
\<close>

definition mount_scan :: "block \<Rightarrow> FileSystem \<Rightarrow> Disk option \<Rightarrow> block \<Rightarrow> bool \<times> FileSystem" where
  "mount_scan uninit fs dk sb =
     mount_blocks [1..<unat (inode_blocks (block_super sb)) + 1] uninit
       (fs_initialize_free_block_bitmap (fs\<lparr>disk := dk, meta_data := block_super sb\<rparr>) sb)"

text \<open>
  What the write loops keep of a file system (the device's size, the cached superblock,
  the absence of faults; bitmap entries are only cleared) and of the inode in memory.
\<close>

definition kept :: "FileSystem \<Rightarrow> FileSystem \<Rightarrow> bool" where
  "kept fs fs' =
     (dk_blocks (disk fs') = dk_blocks (disk fs) \<and> meta_data fs' = meta_data fs \<and>
      (dk_ok (disk fs) \<longrightarrow> dk_ok (disk fs')) \<and>
      (\<forall>i. bitmap_get fs' i \<longrightarrow> bitmap_get fs i))"

definition same_file :: "Inode \<Rightarrow> Inode \<Rightarrow> bool" where
  "same_file node node' =
     (valid node' = valid node \<and> isize node' = isize node \<and>
      length (direct node') = length (direct node))"

text \<open>No block of the device is marked free.\<close>

definition no_free :: "FileSystem \<Rightarrow> bool" where
  "no_free fs = (\<forall>i<unat (sb_blocks (meta_data fs)). \<not> bitmap_get fs i)"

text \<open>
  The scan of \<^verbatim>\<open>fs_mount\<close> can read the indirect block of slot \<open>j\<close> of an inode
  block on a device of \<open>n\<close> blocks: the slot is not valid, or has no indirect block, or
  its indirect pointer is inside the device.
\<close>

definition indirect_readable :: "nat \<Rightarrow> block \<Rightarrow> nat \<Rightarrow> bool" where
  "indirect_readable n blk j =
     (valid (block_inodes blk j) = 0 \<or> indirect (block_inodes blk j) = 0 \<or>
      unat (indirect (block_inodes blk j)) < n)"

text \<open>What the scan of \<^verbatim>\<open>fs_mount\<close> leaves as it was: the device's size and blocks.\<close>

definition untouched :: "FileSystem \<Rightarrow> FileSystem \<Rightarrow> bool" where
  "untouched fs fs' =
     (dk_blocks (disk fs') = dk_blocks (disk fs) \<and> dk_image (disk fs') = dk_image (disk fs) \<and>
      (dk_ok (disk fs) \<longrightarrow> dk_ok (disk fs')) \<and>
      ((free_blocks fs' = None) = (free_blocks fs = None)))"

text \<open>Every slot of the inode table of a device is readable in that sense.\<close>

definition table_readable :: "Disk \<Rightarrow> bool" where
  "table_readable d =
     (\<forall>b\<in>{1..unat (inode_blocks (block_super (image d 0)))}. \<forall>j<INODES_PER_BLOCK.
        indirect_readable (blocks d) (image d b) j)"

text \<open>
  Every block pointer that \<^verbatim>\<open>fs_mount\<close> follows lies inside the device: the direct
  pointers and the indirect pointer of every valid inode of the table, and the entries of
  its indirect block.
\<close>

definition pointers_inside :: "Disk \<Rightarrow> bool" where
  "pointers_inside d =
     (\<forall>b\<in>{1..unat (inode_blocks (block_super (image d 0)))}. \<forall>j<INODES_PER_BLOCK.
        valid (block_inodes (image d b) j) \<noteq> 0 \<longrightarrow>
        (\<forall>p\<in>inode_refs (image d) (block_inodes (image d b) j). p < blocks d))"

text \<open>
  Device R: ten blocks, a correct superblock; inode 0 is valid, has no direct block, and
  its indirect block is block 2, a block of zeros. The third transfer of the device
  fails.
\<close>

definition dev_r :: Disk where
  "dev_r = device 10
     ((\<lambda>_. empty_block)(1 := set_block_inodes empty_block 0 (file_node 5 [0, 0, 0, 0, 0] 2)))
     [False, False, True]"

text \<open>A file system structure of zero bytes, not mounted.\<close>

definition fs_zero :: FileSystem where
  "fs_zero = unmounted \<lparr>magic_number = 0, sb_blocks = 0, inode_blocks = 0, inodes = 0\<rparr>"




text \<open>
  Device B: twenty blocks, a correct superblock (two blocks of inode table, 256 inodes);
  inode 0 is a file of 32 bytes whose only block is block 3, and the file's bytes are
  01 00 00 00 07 00 00 00 followed by zeros. File system B is what \<^verbatim>\<open>fs_mount\<close> makes
  of it.
\<close>

definition dev_b :: Disk where
  "dev_b = device 20
     ((\<lambda>_. empty_block)
        (1 := set_block_inodes empty_block 0 (file_node 32 [3, 0, 0, 0, 0] 0),
         3 := wr32 (wr32 empty_block 0 1) 4 7)) []"

definition fs_b :: FileSystem where
  "fs_b = fst (snd (fs_mount empty_block fs_zero (Some dev_b)))"

text \<open>
  A device of ten blocks with a correct superblock whose inode table holds the one
  inode \<open>node\<close>, in slot 0; the other blocks are those of \<open>img\<close>.
\<close>

definition one_file :: "(nat \<Rightarrow> block) \<Rightarrow> Inode \<Rightarrow> Disk" where
  "one_file img node = device 10 (img(1 := set_block_inodes empty_block 0 node)) []"

text \<open>
  Device C: inode 0 is a file of 8192 bytes in the blocks 2 and 3; block 2 holds the
  byte 0x41 throughout and block 3 the byte 0x42. File system C is what \<^verbatim>\<open>fs_mount\<close>
  makes of it.
\<close>

definition dev_c :: Disk where
  "dev_c = one_file ((\<lambda>_. empty_block)(2 := (\<lambda>_. 0x41), 3 := (\<lambda>_. 0x42)))
     (file_node 8192 [2, 3, 0, 0, 0] 0)"

definition fs_c :: FileSystem where
  "fs_c = fst (snd (fs_mount empty_block fs_zero (Some dev_c)))"

text \<open>
  Device D: inode 0 is an empty file that owns block 2, a block of zeros. File system D
  is what \<^verbatim>\<open>fs_mount\<close> makes of it; D1 is the file system after writing the ten bytes
  \<^verbatim>\<open>ABCDEFGHIJ\<close> at offset 0, and D2 after then writing the two bytes \<^verbatim>\<open>xy\<close> at
  offset 4.
\<close>

definition dev_d :: Disk where
  "dev_d = one_file (\<lambda>_. empty_block) (file_node 0 [2, 0, 0, 0, 0] 0)"

definition fs_d :: FileSystem where
  "fs_d = fst (snd (fs_mount empty_block fs_zero (Some dev_d)))"

definition ten_bytes :: "nat \<Rightarrow> byte" where
  "ten_bytes i = 65 + word_of_nat i"

definition two_bytes :: "nat \<Rightarrow> byte" where
  "two_bytes i = 120 + word_of_nat i"

definition fs_d1 :: FileSystem where
  "fs_d1 = snd (fs_write empty_block fs_d 0 ten_bytes 10 0)"

definition fs_d2 :: FileSystem where
  "fs_d2 = snd (fs_write empty_block fs_d1 0 two_bytes 2 4)"





text \<open>
  File systems mounted on a device of ten blocks with a correct superblock (one block of
  inode table, 128 slots): E, where the table is all zeros, with a fault schedule; F,
  where every byte of the table is 1, so that every slot is valid; S, where the table is
  zero but for the size field of slot 0, which holds 7.
\<close>

definition fs_e :: "bool list \<Rightarrow> FileSystem" where
  "fs_e fl = mounted (device 10 (\<lambda>_. empty_block) fl) (\<lambda>i. 2 \<le> i \<and> i < 10)"

definition fs_f :: FileSystem where
  "fs_f = mounted (device 10 ((\<lambda>_. empty_block)(1 := (\<lambda>_. 1))) []) (\<lambda>i. 2 \<le> i \<and> i < 10)"

definition fs_s :: FileSystem where
  "fs_s = mounted (device 10 ((\<lambda>_. empty_block)(1 := wr32 empty_block 4 7)) []) (\<lambda>i. 2 \<le> i \<and> i < 10)"

subsection \<open>The count that a write returns\<close>

text \<open>
  The free blocks of a file system: the entries of the bitmap that \<^verbatim>\<open>fs_find_free\<close>
  scans and finds set.
\<close>

definition free_count :: "FileSystem \<Rightarrow> nat" where
  "free_count fs = length (filter (bitmap_get fs) [0..<unat (sb_blocks (meta_data fs))])"

text \<open>
  A file system on which no transfer fails, whose bitmap does not offer block 0 (the
  superblock; \<^verbatim>\<open>fs_find_free\<close> reports block 0 as no block), and whose cached block
  count does not exceed the device. \<^verbatim>\<open>fs_mount\<close> establishes the last two.
\<close>

definition ready :: "FileSystem \<Rightarrow> bool" where
  "ready fs = (dk_ok (disk fs) \<and> \<not> bitmap_get fs 0 \<and>
     unat (sb_blocks (meta_data fs)) \<le> dk_blocks (disk fs))"

text \<open>
  The walk of a write over the file's blocks, as the specification describes it, from
  the logical block \<open>c\<close>: one step for each direct pointer from \<open>c\<close> on, one step for
  the indirect block, and one step for each entry of the indirect block \<open>ind\<close> from
  \<open>c - POINTERS_PER_INODE\<close> on. A step is a pair: whether it needs a free block (its
  pointer is zero; every entry of an indirect block that does not exist yet is zero),
  and whether it holds data of the file (every step but that of the indirect block).
\<close>

definition write_steps :: "Inode \<Rightarrow> block \<Rightarrow> nat \<Rightarrow> (bool \<times> bool) list" where
  "write_steps node ind c =
     map (\<lambda>i. (direct node ! i = 0, True)) [c..<POINTERS_PER_INODE] @
     (indirect node = 0, False) #
     map (\<lambda>l. (indirect node = 0 \<or> block_pointers ind l = 0, True))
       [c - POINTERS_PER_INODE..<POINTERS_PER_BLOCK]"

text \<open>
  The data blocks that the walk reaches when \<open>F\<close> blocks are free: it stops at the first
  step that needs a block when none is left, and every step that needs one uses one up.
\<close>

fun served :: "(bool \<times> bool) list \<Rightarrow> nat \<Rightarrow> nat" where
  "served [] F = 0"
| "served ((need, is_data) # rest) F =
     (if need \<and> F = 0 then 0
      else (if is_data then 1 else 0) + served rest (if need then F - 1 else F))"

text \<open>The bytes that \<open>k\<close> blocks hold from the position \<open>bp\<close> of the first of them.\<close>

definition span :: "nat \<Rightarrow> nat \<Rightarrow> nat" where
  "span bp k = (if k = 0 then 0 else BLOCK_SIZE - bp + (k - 1) * BLOCK_SIZE)"

text \<open>
  The bytes already written when a write of \<open>len\<close> bytes at the offset \<open>off\<close> ends, with
  \<open>F\<close> free blocks at its start: all of them, or those that fit into the blocks reached.
\<close>

definition written :: "Inode \<Rightarrow> block \<Rightarrow> nat \<Rightarrow> nat \<Rightarrow> nat \<Rightarrow> nat" where
  "written node ind F len off =
     min len (span (off mod BLOCK_SIZE) (served (write_steps node ind (off div BLOCK_SIZE)) F))"

text \<open>
  The same walk with the counters of the loops of \<^verbatim>\<open>fs_write\<close>: the position in the
  block and the bytes written; it ends as the loops do, when a needed block is missing or
  the bytes written reach \<open>len\<close>.
\<close>

fun run :: "(bool \<times> bool) list \<Rightarrow> nat \<Rightarrow> nat \<Rightarrow> nat \<Rightarrow> nat \<Rightarrow> nat" where
  "run [] F bp len bw = bw"
| "run ((need, is_data) # rest) F bp len bw =
     (if need \<and> F = 0 then bw
      else if is_data then
        (if bw + write_count bp len bw = len then len
         else run rest (if need then F - 1 else F) 0 len (bw + write_count bp len bw))
      else run rest (if need then F - 1 else F) bp len bw)"

text \<open>
  \<^verbatim>\<open>fs_find_free\<close> has taken the block \<open>k\<close> of \<open>fs\<close> and left \<open>fs1\<close>: the block was
  free, it is now in use and zeroed, and one block less is free.
\<close>

definition took :: "FileSystem \<Rightarrow> nat \<Rightarrow> FileSystem \<Rightarrow> bool" where
  "took fs k fs1 =
     (0 < k \<and> k < unat (sb_blocks (meta_data fs)) \<and> bitmap_get fs k \<and>
      ready fs1 \<and> free_count fs1 = free_count fs - 1 \<and>
      dk_image (disk fs1) = (dk_image (disk fs))(k := empty_block) \<and>
      (\<forall>i. bitmap_get fs1 i = (i \<noteq> k \<and> bitmap_get fs i)) \<and>
      meta_data fs1 = meta_data fs \<and> dk_blocks (disk fs1) = dk_blocks (disk fs))"

text \<open>
  What the loops of \<^verbatim>\<open>fs_write\<close> leave of the file system \<open>fs\<close>, and, in the direct
  range, of the block \<open>q\<close> that holds the indirect block.
\<close>

definition held :: "FileSystem \<Rightarrow> FileSystem \<Rightarrow> bool" where
  "held fs fs' =
     (ready fs' \<and> meta_data fs' = meta_data fs \<and> dk_blocks (disk fs') = dk_blocks (disk fs))"

definition carried :: "FileSystem \<Rightarrow> FileSystem \<Rightarrow> nat \<Rightarrow> bool" where
  "carried fs fs' q =
     (ready fs' \<and> meta_data fs' = meta_data fs \<and> dk_blocks (disk fs') = dk_blocks (disk fs) \<and>
      dk_image (disk fs') q = dk_image (disk fs) q \<and> \<not> bitmap_get fs' q)"

text \<open>
  The result \<open>R\<close> of the direct loop, started on \<open>fs\<close> and \<open>node\<close> with \<open>F\<close> free blocks,
  agrees with \<open>run\<close> on the steps of the loop, whatever steps follow; and the result of
  the loop over the indirect block agrees with \<open>run\<close> on its steps.
\<close>

definition ran ::
  "FileSystem \<Rightarrow> Inode \<Rightarrow> nat \<Rightarrow> nat \<Rightarrow> (bool \<times> bool) list \<Rightarrow> nat \<Rightarrow> nat \<Rightarrow> nat \<Rightarrow>
   bool \<times> FileSystem \<times> Inode \<times> nat \<times> nat \<Rightarrow> bool" where
  "ran fs node q len steps F bp bw R =
     (case R of (stop, fs', node', bp', bw') \<Rightarrow>
        carried fs fs' q \<and>
        indirect node' = indirect node \<and> valid node' = valid node \<and> isize node' = isize node \<and>
        (\<forall>more. run (steps @ more) F bp len bw =
           (if stop then bw' else run more (free_count fs') bp' len bw')))"

definition ranp ::
  "FileSystem \<Rightarrow> nat \<Rightarrow> (bool \<times> bool) list \<Rightarrow> nat \<Rightarrow> nat \<Rightarrow> nat \<Rightarrow> FileSystem \<times> nat \<Rightarrow> bool" where
  "ranp fs len steps F bp bw R =
     (case R of (fs', bw') \<Rightarrow> held fs fs' \<and> run steps F bp len bw = bw')"

text \<open>
  File system W: device A with the blocks 3 and 4 free. File system U: device A with no
  block free, on which the fourth transfer fails.
\<close>

definition fs_w :: FileSystem where
  "fs_w = mounted (dev_a []) (\<lambda>i. i = 3 \<or> i = 4)"

definition fs_u :: FileSystem where
  "fs_u = mounted (dev_a [False, False, False, True]) (\<lambda>_. False)"

text \<open>
  Device I: ten blocks, a correct superblock; inode 0 is a file of 20480 bytes in the
  blocks 2 to 6 with the indirect pointer \<open>ind\<close>; block 7 holds the pointer 8 in its
  first entry and zeros elsewhere. File system I is mounted on it with the bitmap \<open>fb\<close>.
\<close>

definition dev_i :: "uint32 \<Rightarrow> Disk" where
  "dev_i ind = device 10
     ((\<lambda>_. empty_block)
        (1 := set_block_inodes empty_block 0 (file_node 20480 [2, 3, 4, 5, 6] ind),
         7 := wr32 empty_block 0 8)) []"

definition fs_i :: "uint32 \<Rightarrow> bitmap \<Rightarrow> FileSystem" where
  "fs_i ind fb = mounted (dev_i ind) fb"

section \<open>Facts about the block views and the device\<close>

lemma rd32_wr32_same [simp]: "rd32 (wr32 b off w) off = w"
  unfolding rd32_def wr32_def
  apply simp
  apply (rule bit_word_eqI)
  apply (auto simp: bit_simps not_less)
  apply (rule ccontr)
  apply (subgoal_tac "24 + (n - 24) = n")
   apply simp
  apply arith
  done

lemma rd32_wr32_other [simp]:
  "off' + 4 \<le> off \<or> off + 4 \<le> off' \<Longrightarrow> rd32 (wr32 b off w) off' = rd32 b off'"
  unfolding rd32_def wr32_def by auto

lemma rd32_empty_block [simp]: "rd32 empty_block off = 0"
  by (simp add: rd32_def empty_block_def)

lemma disk_open_new_path: "n \<le> 1000 \<Longrightarrow> disk_open file 0 n = Some (zero_disk n)"
  by (simp add: disk_open_def zero_disk_def)

lemma disk_write_nofault:
  "faults d = [] \<Longrightarrow> disk_write (Some d) i b =
     (if i < blocks d
      then (True, Some (d\<lparr>faults := [], writes := writes d + 1, image := (image d)(i := b)\<rparr>))
      else (False, Some d))"
  by (simp add: disk_write_def disk_sanity_check_def transfer_fails_def after_transfer_def)

lemma disk_read_nofault:
  "faults d = [] \<Longrightarrow> disk_read (Some d) i =
     (if i < blocks d
      then (Some (image d i), Some (d\<lparr>faults := [], reads := reads d + 1\<rparr>))
      else (None, Some d))"
  by (simp add: disk_read_def disk_sanity_check_def transfer_fails_def after_transfer_def)


lemma upt5: "[0..<5] = [0, 1, 2, 3, 4]"
  by (simp add: upt_rec)

lemma replicate5: "replicate 5 x = [x, x, x, x, x]"
  by (simp add: eval_nat_numeral)

lemma list5: "length xs = 5 \<Longrightarrow> \<exists>a b c d e. xs = [a, b, c, d, e]"
  by (auto simp: length_Suc_conv eval_nat_numeral)

lemma block_inodes_set_same:
  "length (direct node) = POINTERS_PER_INODE \<Longrightarrow> block_inodes (set_block_inodes b j node) j = node"
proof -
  assume "length (direct node) = POINTERS_PER_INODE"
  then obtain p0 p1 p2 p3 p4 where d: "direct node = [p0, p1, p2, p3, p4]"
    using list5 [of "direct node"] by (auto simp: POINTERS_PER_INODE_def)
  show ?thesis
    by (rule Inode.equality)
      (simp_all add: block_inodes_def set_block_inodes_def INODE_BYTES_def POINTERS_PER_INODE_def upt5 d)
qed

lemma block_inodes_set_other:
  "j' \<noteq> j \<Longrightarrow> block_inodes (set_block_inodes b j node) j' = block_inodes b j'"
  by (cases "j' < j"; rule Inode.equality)
    (simp_all add: block_inodes_def set_block_inodes_def INODE_BYTES_def POINTERS_PER_INODE_def upt5)

lemma block_inodes_empty: "block_inodes empty_block j = iblank"
  by (simp add: block_inodes_def iblank_def POINTERS_PER_INODE_def upt5 replicate5)

lemma length_direct_block_inodes: "length (direct (block_inodes b j)) = POINTERS_PER_INODE"
  by (simp add: block_inodes_def)

lemma block_inodes_wr32_valid:
  "block_inodes (wr32 b (INODE_BYTES * j) v) j' =
     (if j' = j then (block_inodes b j)\<lparr>valid := v\<rparr> else block_inodes b j')"
  by (cases "j' < j"; cases "j' = j"; rule Inode.equality)
    (simp_all add: block_inodes_def INODE_BYTES_def POINTERS_PER_INODE_def upt5)

lemma block_pointers_empty: "block_pointers empty_block l = 0"
  by (simp add: block_pointers_def)

lemma block_pointers_set:
  "block_pointers (set_block_pointers b l p) l' = (if l' = l then p else block_pointers b l')"
  by (cases "l' < l"; cases "l' = l") (simp_all add: block_pointers_def set_block_pointers_def)

text \<open>The device.\<close>

lemma dk_blocks_disk_read: "dk_blocks (snd (disk_read dk i)) = dk_blocks dk"
  by (simp add: disk_read_def dk_blocks_def after_transfer_def split: option.splits)

lemma dk_image_disk_read: "dk_image (snd (disk_read dk i)) = dk_image dk"
  by (simp add: disk_read_def dk_image_def after_transfer_def split: option.splits)

lemma dk_ok_disk_read: "dk_ok dk \<Longrightarrow> dk_ok (snd (disk_read dk i))"
  by (auto simp add: disk_read_def dk_ok_def after_transfer_def split: option.splits)

lemma fst_disk_read:
  "dk_ok dk \<Longrightarrow> fst (disk_read dk i) = (if i < dk_blocks dk then Some (dk_image dk i) else None)"
  by (simp add: disk_read_def dk_ok_def dk_blocks_def dk_image_def disk_sanity_check_def
      transfer_fails_def split: option.splits)

lemma disk_read_Some:
  "fst (disk_read dk i) = Some b \<Longrightarrow> b = dk_image dk i \<and> i < dk_blocks dk"
  by (auto simp add: disk_read_def dk_blocks_def dk_image_def disk_sanity_check_def
      split: option.splits if_splits)

lemma dk_blocks_disk_write: "dk_blocks (snd (disk_write dk i b)) = dk_blocks dk"
  by (simp add: disk_write_def dk_blocks_def after_transfer_def split: option.splits)

lemma dk_image_disk_write:
  "dk_image (snd (disk_write dk i b)) =
     (if fst (disk_write dk i b) then (dk_image dk)(i := b) else dk_image dk)"
  by (simp add: disk_write_def dk_image_def after_transfer_def split: option.splits)

lemma dk_ok_disk_write: "dk_ok dk \<Longrightarrow> dk_ok (snd (disk_write dk i b))"
  by (auto simp add: disk_write_def dk_ok_def after_transfer_def split: option.splits)

lemma fst_disk_write: "dk_ok dk \<Longrightarrow> fst (disk_write dk i b) = (i < dk_blocks dk)"
  by (auto simp add: disk_write_def dk_ok_def dk_blocks_def disk_sanity_check_def
      transfer_fails_def split: option.splits)

lemma disk_write_True: "fst (disk_write dk i b) \<Longrightarrow> i < dk_blocks dk"
  by (auto simp add: disk_write_def dk_blocks_def disk_sanity_check_def
      split: option.splits if_splits)

lemmas dk_simps = dk_blocks_disk_read dk_image_disk_read dk_ok_disk_read fst_disk_read
  dk_blocks_disk_write dk_image_disk_write dk_ok_disk_write fst_disk_write

text \<open>The bitmap.\<close>

lemma disk_bitmap_set [simp]: "disk (bitmap_set fs i v) = disk fs"
  by (simp add: bitmap_set_def)

lemma meta_data_bitmap_set [simp]: "meta_data (bitmap_set fs i v) = meta_data fs"
  by (simp add: bitmap_set_def)

lemma bitmap_get_bitmap_set:
  "bitmap_get (bitmap_set fs i v) j = (if free_blocks fs = None then False else if j = i then v else bitmap_get fs j)"
  by (auto simp add: bitmap_get_def bitmap_set_def split: option.splits)

lemma free_blocks_bitmap_set_None [simp]: "(free_blocks (bitmap_set fs i v) = None) = (free_blocks fs = None)"
  by (simp add: bitmap_set_def)

lemma disk_bitmap_store [simp]: "disk (bitmap_store fs p v) = disk fs"
  by (simp add: bitmap_store_def split: option.splits)

lemma meta_data_bitmap_store [simp]: "meta_data (bitmap_store fs p v) = meta_data fs"
  by (simp add: bitmap_store_def split: option.splits)

lemma free_blocks_bitmap_store_None [simp]:
  "(free_blocks (bitmap_store fs p v) = None) = (free_blocks fs = None)"
  by (simp add: bitmap_store_def split: option.splits)


lemma overrun_bitmap_set [simp]: "overrun (bitmap_set fs i v) = overrun fs"
  by (simp add: bitmap_set_def)

lemma overrun_bitmap_store:
  "overrun (bitmap_store fs p v) =
     (overrun fs \<or> free_blocks fs = None \<or> \<not> p < dk_blocks (disk fs))"
  by (auto simp add: bitmap_store_def dk_blocks_def split: option.splits)

lemma bitmap_get_overrun_update [simp]: "bitmap_get (fs\<lparr>overrun := b\<rparr>) i = bitmap_get fs i"
  by (simp add: bitmap_get_def)

lemma bitmap_get_disk_update [simp]: "bitmap_get (fs\<lparr>disk := d\<rparr>) i = bitmap_get fs i"
  by (simp add: bitmap_get_def)

lemma bitmap_set_disk_update: "bitmap_set (fs\<lparr>disk := d\<rparr>) i v = (bitmap_set fs i v)\<lparr>disk := d\<rparr>"
  by (simp add: bitmap_set_def)

text \<open>Load and save.\<close>


lemma slot_index_alt: "n - n div INODES_PER_BLOCK * INODES_PER_BLOCK = slot_index n"
  by (simp add: slot_index_def minus_div_mult_eq_mod)

lemma fst_fs_load_inode:
  "dk_ok (disk fs) \<Longrightarrow> fst (fs_load_inode fs n) =
     (if slot_block n < dk_blocks (disk fs) \<and> valid (slot (disk fs) n) \<noteq> 0
      then Some (slot (disk fs) n) else None)"
  by (simp add: fs_load_inode_def Let_def slot_index_alt case_prod_beta fst_disk_read slot_def slot_block_def
      split: option.splits)

lemma fs_load_inode_Some:
  "fst (fs_load_inode fs n) = Some node \<Longrightarrow>
     slot_block n < dk_blocks (disk fs) \<and> node = slot (disk fs) n \<and> valid node \<noteq> 0"
  by (auto simp add: fs_load_inode_def Let_def slot_index_alt case_prod_beta slot_def slot_block_def
      split: option.splits if_splits dest!: disk_read_Some)

lemma snd_fs_load_inode:
  "dk_image (disk (snd (fs_load_inode fs n))) = dk_image (disk fs)"
  "dk_blocks (disk (snd (fs_load_inode fs n))) = dk_blocks (disk fs)"
  "free_blocks (snd (fs_load_inode fs n)) = free_blocks fs"
  "meta_data (snd (fs_load_inode fs n)) = meta_data fs"
  "dk_ok (disk fs) \<Longrightarrow> dk_ok (disk (snd (fs_load_inode fs n)))"
  by (simp_all add: fs_load_inode_def Let_def case_prod_beta dk_simps split: option.splits)

lemma bitmap_get_fs_load_inode [simp]: "bitmap_get (snd (fs_load_inode fs n)) i = bitmap_get fs i"
  by (simp add: bitmap_get_def snd_fs_load_inode)

lemma fst_fs_save_inode:
  "dk_ok (disk fs) \<Longrightarrow> fst (fs_save_inode fs n node) = (slot_block n < dk_blocks (disk fs))"
  by (simp add: fs_save_inode_def Let_def case_prod_beta dk_simps slot_block_def split: option.splits)

lemma snd_fs_save_inode:
  "dk_blocks (disk (snd (fs_save_inode fs n node))) = dk_blocks (disk fs)"
  "free_blocks (snd (fs_save_inode fs n node)) = free_blocks fs"
  "meta_data (snd (fs_save_inode fs n node)) = meta_data fs"
  "dk_ok (disk fs) \<Longrightarrow> dk_ok (disk (snd (fs_save_inode fs n node)))"
  by (simp_all add: fs_save_inode_def Let_def case_prod_beta dk_simps split: option.splits)

lemma dk_image_fs_save_inode:
  "dk_image (disk (snd (fs_save_inode fs n node))) =
     (if fst (fs_save_inode fs n node)
      then (dk_image (disk fs))(slot_block n :=
             set_block_inodes (dk_image (disk fs) (slot_block n)) (slot_index n) node)
      else dk_image (disk fs))"
  by (auto simp add: fs_save_inode_def Let_def case_prod_beta dk_simps slot_block_def slot_index_alt
      split: option.splits dest!: disk_read_Some)

section \<open>Format and mount\<close>

text \<open>The clearing loop of \<^verbatim>\<open>fs_format\<close> never touches block 0.\<close>

lemma format_clear_nofault:
  "faults d = [] \<Longrightarrow> \<forall>i\<in>set is. 0 < i \<and> i < blocks d \<Longrightarrow>
   \<exists>d'. format_clear is (Some d) = (True, Some d') \<and> blocks d' = blocks d \<and> faults d' = []
        \<and> image d' 0 = image d 0"
proof (induction "is" arbitrary: d)
  case Nil
  then show ?case by simp
next
  case (Cons i rest)
  let ?d1 = "d\<lparr>faults := [], writes := writes d + 1, image := (image d)(i := empty_block)\<rparr>"
  from Cons.prems have w: "disk_write (Some d) i empty_block = (True, Some ?d1)"
    by (simp add: disk_write_nofault)
  have "\<exists>d'. format_clear rest (Some ?d1) = (True, Some d') \<and> blocks d' = blocks ?d1
          \<and> faults d' = [] \<and> image d' 0 = image ?d1 0"
    by (rule Cons.IH) (use Cons.prems in auto)
  with w Cons.prems show ?case by auto
qed

lemma mount_bad_magic:
  "magic_number (block_super (image d 0)) \<noteq> MAGIC_NUMBER \<Longrightarrow> faults d = [] \<Longrightarrow>
   fst (fs_mount uninit fs (Some d)) = False"
  by (simp add: fs_mount_def disk_read_nofault)

lemma unat_of_nat32_le: "unat (word_of_nat n :: uint32) \<le> n"
  by (simp add: unat_of_nat)

text \<open>
  Claim C1. The claim: for every supported block count \<open>N\<close>, \<^verbatim>\<open>format\<close> on an
  unmounted file system over a device of \<open>N\<close> blocks followed by \<^verbatim>\<open>mount\<close> succeeds,
  because \<^verbatim>\<open>format\<close> writes the superblock to block 0. The code computes the
  superblock into \<^verbatim>\<open>fs->meta_data\<close> only and clears the blocks from 1 on; block 0 is
  never written. On a device of zero bytes of any size \<open>n\<close>, \<^verbatim>\<open>fs_format\<close> returns
  true and the following \<^verbatim>\<open>fs_mount\<close> returns false (the magic number read is 0).
\<close>

theorem C1_format_then_mount_zero_device:
  "fst (fs_format (unmounted md) (zero_disk n)) = True \<and>
   fst (fs_mount uninit
         (fst (snd (fs_format (unmounted md) (zero_disk n))))
         (snd (snd (fs_format (unmounted md) (zero_disk n))))) = False"
proof -
  have "\<forall>i\<in>set [1..<unat (word_of_nat n :: uint32)]. 0 < i \<and> i < blocks (zero_disk n)"
    using unat_of_nat32_le [of n] by (auto simp: zero_disk_def)
  moreover have "faults (zero_disk n) = []" by (simp add: zero_disk_def)
  ultimately obtain d' where
    f: "format_clear [1..<unat (word_of_nat n :: uint32)] (Some (zero_disk n)) = (True, Some d')"
    and d': "faults d' = []" "image d' 0 = image (zero_disk n) 0"
    using format_clear_nofault [of "zero_disk n" "[1..<unat (word_of_nat n :: uint32)]"] by blast
  have m: "magic_number (block_super (image d' 0)) \<noteq> MAGIC_NUMBER"
    using d' by (simp add: zero_disk_def block_super_def MAGIC_NUMBER_def)
  show ?thesis
    using f mount_bad_magic [OF m d'(1)]
    by (simp add: fs_format_def unmounted_def zero_disk_def Let_def)
qed

section \<open>Removing an inode\<close>


















lemma fs_stat_eq:
  "fs_stat fs n =
     (case fst (fs_load_inode fs n) of
        None \<Rightarrow> (- 1, snd (fs_load_inode fs n))
      | Some node \<Rightarrow> (uint (isize node), snd (fs_load_inode fs n)))"
  by (simp add: fs_stat_def case_prod_beta split: option.splits)


lemma valid_iblank [simp]: "valid iblank = 0"
  by (simp add: iblank_def)

lemma length_direct_iblank [simp]: "length (direct iblank) = POINTERS_PER_INODE"
  by (simp add: iblank_def)



lemma direct_refs_eq:
  "length (direct node) = POINTERS_PER_INODE \<Longrightarrow>
   direct_refs node = set (map unat (filter (\<lambda>p. p \<noteq> 0) (direct node)))"
proof -
  assume l: "length (direct node) = POINTERS_PER_INODE"
  have "direct_refs node = unat ` {p \<in> set (direct node). p \<noteq> 0}"
    using l by (auto simp add: direct_refs_def set_conv_nth image_iff)
  also have "\<dots> = set (map unat (filter (\<lambda>p. p \<noteq> 0) (direct node)))"
    by simp
  finally show ?thesis .
qed

lemma dev_a_obs [simp]:
  "dk_ok (Some (dev_a []))" "dk_blocks (Some (dev_a fl)) = 10"
  "disk (fs_a fl) = Some (dev_a fl)"
  "slot (Some (dev_a fl)) 0 = file_node 5 [2, 0, 0, 0, 0] 0"
  "free_blocks (fs_a fl) \<noteq> None"
  by (simp_all add: dk_ok_def dk_blocks_def dev_a_def device_def fs_a_def mounted_def slot_def
      slot_block_def slot_index_def dk_image_def INODES_PER_BLOCK_def block_inodes_set_same file_node_def
      POINTERS_PER_INODE_def)




section \<open>Claim C7\<close>






lemma slot_load [simp]: "slot (disk (snd (fs_load_inode fs m))) n = slot (disk fs) n"
  by (simp add: slot_def snd_fs_load_inode)













section \<open>The bitmap after mount, and the allocator\<close>


lemma free_blocks_bitmap_set_Some [simp]:
  "(\<exists>y. free_blocks (bitmap_set fs i v) = Some y) = (\<exists>y. free_blocks fs = Some y)"
  by (cases "free_blocks fs") (simp_all add: bitmap_set_def)

lemma init_fold_frame:
  "free_blocks fs0 \<noteq> None \<Longrightarrow>
   free_blocks (fold (init_step ib) [0..<n] fs0) \<noteq> None \<and>
   disk (fold (init_step ib) [0..<n] fs0) = disk fs0 \<and>
   meta_data (fold (init_step ib) [0..<n] fs0) = meta_data fs0"
  by (induction n) (simp_all add: init_step_def)

lemma init_fold_bitmap:
  "free_blocks fs0 \<noteq> None \<Longrightarrow>
   bitmap_get (fold (init_step ib) [0..<n] fs0) i =
     (if i < n then \<not> i \<le> ib else bitmap_get fs0 i)"
proof (induction n)
  case 0
  then show ?case by simp
next
  case (Suc n)
  from init_fold_frame [OF Suc.prems, of ib n]
  have fb: "free_blocks (fold (init_step ib) [0..<n] fs0) \<noteq> None" by simp
  have "bitmap_get (fold (init_step ib) [0..<Suc n] fs0) i =
          bitmap_get (init_step ib n (fold (init_step ib) [0..<n] fs0)) i"
    by simp
  also have "\<dots> = (if i = n then \<not> n \<le> ib else bitmap_get (fold (init_step ib) [0..<n] fs0) i)"
    using fb by (auto simp add: init_step_def bitmap_get_bitmap_set)
  also have "\<dots> = (if i < Suc n then \<not> i \<le> ib else bitmap_get fs0 i)"
    using Suc.IH [OF Suc.prems] by (auto simp add: less_Suc_eq)
  finally show ?case .
qed

lemma init_bitmap:
  "bitmap_get (fs_initialize_free_block_bitmap fs sb) i =
     (i < unat (sb_blocks (block_super sb)) \<and> \<not> i \<le> unat (inode_blocks (block_super sb)))"
  "free_blocks (fs_initialize_free_block_bitmap fs sb) \<noteq> None"
  "disk (fs_initialize_free_block_bitmap fs sb) = disk fs"
  "meta_data (fs_initialize_free_block_bitmap fs sb) = meta_data fs"
proof -
  let ?fs0 = "fs\<lparr>free_blocks := Some (\<lambda>_. False)\<rparr>"
  have fb: "free_blocks ?fs0 \<noteq> None" by simp
  have eq: "fs_initialize_free_block_bitmap fs sb =
      fold (init_step (unat (inode_blocks (block_super sb)))) [0..<unat (sb_blocks (block_super sb))] ?fs0"
    by (simp add: fs_initialize_free_block_bitmap_def init_step_def)
  show "bitmap_get (fs_initialize_free_block_bitmap fs sb) i =
     (i < unat (sb_blocks (block_super sb)) \<and> \<not> i \<le> unat (inode_blocks (block_super sb)))"
    unfolding eq init_fold_bitmap [OF fb] by (simp add: bitmap_get_def)
  show "free_blocks (fs_initialize_free_block_bitmap fs sb) \<noteq> None"
    "disk (fs_initialize_free_block_bitmap fs sb) = disk fs"
    "meta_data (fs_initialize_free_block_bitmap fs sb) = meta_data fs"
    unfolding eq using init_fold_frame [OF fb] by simp_all
qed



lemma fold_pres:
  assumes "\<And>k fs. g (f k fs) = g fs"
  shows "g (fold f ks fs) = g fs"
  by (induction ks arbitrary: fs) (simp_all add: assms)

lemma bitmap_set_False_mono: "bitmap_get (bitmap_set fs p False) i \<Longrightarrow> bitmap_get fs i"
  by (auto simp add: bitmap_get_bitmap_set split: if_splits)



lemma mount_direct_frame:
  "meta_data (mount_direct node fs) = meta_data fs"
  "disk (mount_direct node fs) = disk fs"
  unfolding mount_direct_def by (rule fold_pres, simp)+


lemma mount_pointers_frame:
  "meta_data (mount_pointers blk fs) = meta_data fs"
  "disk (mount_pointers blk fs) = disk fs"
  unfolding mount_pointers_def by (rule fold_pres, simp)+


lemma mount_inodes_meta: "meta_data (snd (mount_inodes js blk fs)) = meta_data fs"
proof (induction js arbitrary: fs)
  case Nil
  then show ?case by simp
next
  case (Cons j rest)
  show ?case
    by (cases "fst (disk_read (disk (mount_direct (block_inodes blk j) fs))
                  (unat (indirect (block_inodes blk j))))")
      (simp_all add: Let_def case_prod_beta Cons.IH mount_direct_frame mount_pointers_frame)
qed


lemma mount_blocks_meta: "meta_data (snd (mount_blocks bs blk fs)) = meta_data fs"
proof (induction bs arbitrary: fs blk)
  case Nil
  then show ?case by simp
next
  case (Cons b rest)
  show ?case
    by (simp add: Let_def case_prod_beta Cons.IH mount_inodes_meta split: bool.splits)
qed

lemma fs_mount_eq:
  "fs_mount uninit fs (Some d0) =
     (if free_blocks fs = None then
         (case fst (disk_read (Some d0) 0) of
            None \<Rightarrow> (False, fs, snd (disk_read (Some d0) 0))
          | Some sb \<Rightarrow>
              if \<not> sb_valid (block_super sb) (blocks d0) then (False, fs, snd (disk_read (Some d0) 0))
              else
                (fst (mount_scan uninit fs (snd (disk_read (Some d0) 0)) sb),
                 snd (mount_scan uninit fs (snd (disk_read (Some d0) 0)) sb),
                 disk (snd (mount_scan uninit fs (snd (disk_read (Some d0) 0)) sb))))
      else (False, fs, Some d0))"
  by (simp add: fs_mount_def sb_valid_def mount_scan_def Let_def case_prod_beta del: upt_Suc split: option.splits)



lemma mount_scan_meta: "meta_data (snd (mount_scan uninit fs dk sb)) = block_super sb"
  unfolding mount_scan_def by (simp add: mount_blocks_meta init_bitmap)


lemma find_free_scan_none:
  "\<forall>i\<in>set is. \<not> bitmap_get fs i \<Longrightarrow> find_free_scan is fs = (0, fs)"
  by (induction "is") simp_all

lemma find_free_scan_first:
  "\<forall>i\<in>set pre. \<not> bitmap_get fs i \<Longrightarrow> bitmap_get fs k \<Longrightarrow>
   find_free_scan (pre @ k # post) fs =
     ((if fst (disk_write (disk fs) k empty_block) then int k else 0),
      (bitmap_set fs k False)\<lparr>disk := snd (disk_write (disk fs) k empty_block)\<rparr>)"
  by (induction pre) (simp_all add: case_prod_beta split: bool.splits)

lemma upt_split: "k < n \<Longrightarrow> [0..<n] = [0..<k] @ k # [Suc k..<n]"
proof -
  assume k: "k < n"
  have "[0..<n] = [0..<k + (n - k)]" using k by simp
  also have "\<dots> = [0..<k] @ [k..<k + (n - k)]" by (rule upt_add_eq_append) simp
  also have "[k..<k + (n - k)] = k # [Suc k..<n]" using k by (simp add: upt_conv_Cons)
  finally show ?thesis .
qed

lemma fs_find_free_none:
  "\<forall>i<unat (sb_blocks (meta_data fs)). \<not> bitmap_get fs i \<Longrightarrow> fs_find_free fs = (0, fs)"
  unfolding fs_find_free_def by (rule find_free_scan_none) simp

lemma fs_find_free_first:
  assumes "k < unat (sb_blocks (meta_data fs))" "bitmap_get fs k" "\<forall>i<k. \<not> bitmap_get fs i"
  shows "fs_find_free fs =
     ((if fst (disk_write (disk fs) k empty_block) then int k else 0),
      (bitmap_set fs k False)\<lparr>disk := snd (disk_write (disk fs) k empty_block)\<rparr>)"
  unfolding fs_find_free_def upt_split [OF assms(1)]
  by (rule find_free_scan_first) (use assms in auto)

lemma find_free_scan_mono:
  "bitmap_get (snd (find_free_scan is fs)) i \<Longrightarrow> bitmap_get fs i"
  by (induction "is")
    (auto simp add: case_prod_beta bitmap_get_bitmap_set split: bool.splits if_splits)

lemma find_free_scan_frame:
  "dk_blocks (disk (snd (find_free_scan is fs))) = dk_blocks (disk fs)"
  "meta_data (snd (find_free_scan is fs)) = meta_data fs"
  "(free_blocks (snd (find_free_scan is fs)) = None) = (free_blocks fs = None)"
  by (induction "is"; simp add: case_prod_beta dk_simps split: bool.splits)+

lemma find_free_scan_ok:
  "dk_ok (disk fs) \<Longrightarrow> dk_ok (disk (snd (find_free_scan is fs)))"
  by (induction "is") (simp_all add: case_prod_beta dk_simps split: bool.splits)


lemma fs_find_free_mono: "bitmap_get (snd (fs_find_free fs)) i \<Longrightarrow> bitmap_get fs i"
  unfolding fs_find_free_def by (rule find_free_scan_mono)

lemmas fs_find_free_frame = find_free_scan_frame [where ?is = "[0..<unat (sb_blocks (meta_data fs))]" and fs = fs,
    folded fs_find_free_def] for fs

lemma fs_find_free_ok: "dk_ok (disk fs) \<Longrightarrow> dk_ok (disk (snd (fs_find_free fs)))"
  unfolding fs_find_free_def by (rule find_free_scan_ok)


lemma ex_first_free:
  assumes "\<exists>i<n. bitmap_get fs i"
  shows "\<exists>k<n. bitmap_get fs k \<and> (\<forall>i<k. \<not> bitmap_get fs i)"
proof -
  from assms obtain i where i: "i < n" "bitmap_get fs i" by blast
  define k where "k = (LEAST j. bitmap_get fs j)"
  have "bitmap_get fs k" unfolding k_def using i(2) by (rule LeastI)
  moreover have "\<forall>j<k. \<not> bitmap_get fs j" unfolding k_def using not_less_Least by blast
  moreover have "k \<le> i" unfolding k_def using i(2) by (rule Least_le)
  ultimately have "k < n \<and> bitmap_get fs k \<and> (\<forall>i<k. \<not> bitmap_get fs i)"
    using i(1) by simp
  then show ?thesis by (rule exI [of _ k])
qed


section \<open>When mount succeeds\<close>

lemma untouched_refl [simp]: "untouched fs fs"
  by (simp add: untouched_def)

lemma untouched_trans: "untouched a b \<Longrightarrow> untouched b c \<Longrightarrow> untouched a c"
  by (simp add: untouched_def)

lemma untouched_bitmap_set: "untouched fs (bitmap_set fs i v)"
  by (simp add: untouched_def)

lemma untouched_bitmap_store: "untouched fs (bitmap_store fs p v)"
  by (simp add: untouched_def)

lemma untouched_disk_read: "untouched fs (fs\<lparr>disk := snd (disk_read (disk fs) p)\<rparr>)"
  by (simp add: untouched_def dk_simps)

lemma fold_untouched:
  assumes "\<And>k fs. untouched fs (f k fs)"
  shows "untouched fs (fold f ks fs)"
proof (induction ks arbitrary: fs)
  case Nil
  show ?case by simp
next
  case (Cons k ks)
  have "untouched fs (f k fs)" by (rule assms)
  moreover have "untouched (f k fs) (fold f ks (f k fs))" by (rule Cons.IH)
  ultimately show ?case by (simp add: untouched_trans)
qed

lemma untouched_mount_direct: "untouched fs (mount_direct node fs)"
  unfolding mount_direct_def by (rule fold_untouched) (simp add: untouched_bitmap_store)

lemma untouched_mount_pointers: "untouched fs (mount_pointers blk fs)"
  unfolding mount_pointers_def by (rule fold_untouched) (simp add: untouched_bitmap_store)

lemma mount_inodes_Cons:
  "mount_inodes (j # rest) blk fs =
     (if valid (block_inodes blk j) = 0 then mount_inodes rest blk fs
      else if indirect (block_inodes blk j) = 0
        then mount_inodes rest blk (mount_direct (block_inodes blk j) fs)
      else
        (case fst (disk_read (disk (mount_direct (block_inodes blk j) fs))
                     (unat (indirect (block_inodes blk j)))) of
           None \<Rightarrow> (False,
             (bitmap_store (mount_direct (block_inodes blk j) fs) (unat (indirect (block_inodes blk j))) False)
               \<lparr>disk := snd (disk_read (disk (mount_direct (block_inodes blk j) fs))
                          (unat (indirect (block_inodes blk j))))\<rparr>)
         | Some b \<Rightarrow>
             mount_inodes rest blk
               (mount_pointers b
                 ((bitmap_store (mount_direct (block_inodes blk j) fs) (unat (indirect (block_inodes blk j))) False)
                    \<lparr>disk := snd (disk_read (disk (mount_direct (block_inodes blk j) fs))
                          (unat (indirect (block_inodes blk j))))\<rparr>))))"
  by (simp add: Let_def case_prod_beta split: option.splits)

lemma untouched_step:
  "untouched fs
     ((bitmap_store (mount_direct node fs) q False)\<lparr>disk := snd (disk_read (disk (mount_direct node fs)) q)\<rparr>)"
proof -
  have a: "untouched fs (mount_direct node fs)" by (rule untouched_mount_direct)
  have b: "untouched (mount_direct node fs) (bitmap_store (mount_direct node fs) q False)"
    by (rule untouched_bitmap_store)
  have c: "untouched (bitmap_store (mount_direct node fs) q False)
      ((bitmap_store (mount_direct node fs) q False)\<lparr>disk := snd (disk_read (disk (mount_direct node fs)) q)\<rparr>)"
    using untouched_disk_read [of "bitmap_store (mount_direct node fs) q False" q] by simp
  from a b have "untouched fs (bitmap_store (mount_direct node fs) q False)" by (rule untouched_trans)
  then show ?thesis using c by (rule untouched_trans)
qed

lemma untouched_mount_inodes: "untouched fs (snd (mount_inodes js blk fs))"
proof (induction js arbitrary: fs)
  case Nil
  show ?case by simp
next
  case (Cons j rest)
  let ?node = "block_inodes blk j"
  let ?q = "unat (indirect ?node)"
  let ?fs2 = "(bitmap_store (mount_direct ?node fs) ?q False)\<lparr>disk := snd (disk_read (disk (mount_direct ?node fs)) ?q)\<rparr>"
  show ?case
  proof (cases "valid ?node = 0")
    case True
    then show ?thesis by (simp add: Cons.IH del: mount_inodes.simps add: mount_inodes_Cons)
  next
    case v: False
    show ?thesis
    proof (cases "indirect ?node = 0")
      case True
      have "untouched fs (mount_direct ?node fs)" by (rule untouched_mount_direct)
      moreover have "untouched (mount_direct ?node fs) (snd (mount_inodes rest blk (mount_direct ?node fs)))"
        by (rule Cons.IH)
      ultimately show ?thesis
        using v True by (simp del: mount_inodes.simps add: mount_inodes_Cons untouched_trans)
    next
      case ind: False
      have u2: "untouched fs ?fs2" by (rule untouched_step)
      show ?thesis
      proof (cases "fst (disk_read (disk (mount_direct ?node fs)) ?q)")
        case None
        with v ind u2 show ?thesis
          by (simp del: mount_inodes.simps add: mount_inodes_Cons)
      next
        case (Some b)
        have "untouched ?fs2 (mount_pointers b ?fs2)" by (rule untouched_mount_pointers)
        moreover have "untouched (mount_pointers b ?fs2) (snd (mount_inodes rest blk (mount_pointers b ?fs2)))"
          by (rule Cons.IH)
        ultimately have "untouched fs (snd (mount_inodes rest blk (mount_pointers b ?fs2)))"
          using u2 by (blast intro: untouched_trans)
        with v ind Some show ?thesis
          by (simp del: mount_inodes.simps add: mount_inodes_Cons)
      qed
    qed
  qed
qed

lemma fst_mount_inodes:
  "dk_ok (disk fs) \<Longrightarrow>
   fst (mount_inodes js blk fs) = (\<forall>j\<in>set js. indirect_readable (dk_blocks (disk fs)) blk j)"
proof (induction js arbitrary: fs)
  case Nil
  show ?case by simp
next
  case (Cons j rest)
  let ?node = "block_inodes blk j"
  let ?q = "unat (indirect ?node)"
  let ?fs1 = "mount_direct ?node fs"
  let ?fs2 = "(bitmap_store ?fs1 ?q False)\<lparr>disk := snd (disk_read (disk ?fs1) ?q)\<rparr>"
  have u1: "untouched fs ?fs1" by (rule untouched_mount_direct)
  have u2: "untouched fs ?fs2" by (rule untouched_step)
  show ?case
  proof (cases "valid ?node = 0")
    case True
    then show ?thesis
      using Cons.IH [OF Cons.prems]
      by (simp del: mount_inodes.simps add: mount_inodes_Cons indirect_readable_def)
  next
    case v: False
    show ?thesis
    proof (cases "indirect ?node = 0")
      case True
      from u1 Cons.prems have "dk_ok (disk ?fs1)" "dk_blocks (disk ?fs1) = dk_blocks (disk fs)"
        by (simp_all add: untouched_def)
      with Cons.IH [of ?fs1] v True show ?thesis
        by (simp del: mount_inodes.simps add: mount_inodes_Cons indirect_readable_def)
    next
      case ind: False
      from u1 Cons.prems have o1: "dk_ok (disk ?fs1)" and b1: "dk_blocks (disk ?fs1) = dk_blocks (disk fs)"
        by (simp_all add: untouched_def)
      show ?thesis
      proof (cases "?q < dk_blocks (disk fs)")
        case False
        with o1 b1 have "fst (disk_read (disk ?fs1) ?q) = None"
          by (simp add: dk_simps)
        with v ind False show ?thesis
          by (simp del: mount_inodes.simps add: mount_inodes_Cons indirect_readable_def)
      next
        case True
        with o1 b1 have rd: "fst (disk_read (disk ?fs1) ?q) = Some (dk_image (disk ?fs1) ?q)"
          by (simp add: dk_simps)
        let ?fs3 = "mount_pointers (dk_image (disk ?fs1) ?q) ?fs2"
        have "untouched ?fs2 ?fs3" by (rule untouched_mount_pointers)
        with u2 have "untouched fs ?fs3" by (rule untouched_trans)
        with Cons.prems have "dk_ok (disk ?fs3)" "dk_blocks (disk ?fs3) = dk_blocks (disk fs)"
          by (simp_all add: untouched_def)
        with Cons.IH [of ?fs3] v ind True rd show ?thesis
          by (simp del: mount_inodes.simps add: mount_inodes_Cons indirect_readable_def)
      qed
    qed
  qed
qed

lemma mount_blocks_Cons:
  "mount_blocks (b # rest) blk fs =
     (if fst (mount_inodes [0..<INODES_PER_BLOCK]
                (case fst (disk_read (disk fs) b) of None \<Rightarrow> blk | Some x \<Rightarrow> x)
                (fs\<lparr>disk := snd (disk_read (disk fs) b)\<rparr>))
      then mount_blocks rest (case fst (disk_read (disk fs) b) of None \<Rightarrow> blk | Some x \<Rightarrow> x)
             (snd (mount_inodes [0..<INODES_PER_BLOCK]
                (case fst (disk_read (disk fs) b) of None \<Rightarrow> blk | Some x \<Rightarrow> x)
                (fs\<lparr>disk := snd (disk_read (disk fs) b)\<rparr>)))
      else (False, snd (mount_inodes [0..<INODES_PER_BLOCK]
                (case fst (disk_read (disk fs) b) of None \<Rightarrow> blk | Some x \<Rightarrow> x)
                (fs\<lparr>disk := snd (disk_read (disk fs) b)\<rparr>))))"
  by (simp add: Let_def case_prod_beta split: bool.splits)

lemma untouched_mount_blocks: "untouched fs (snd (mount_blocks bs blk fs))"
proof (induction bs arbitrary: fs blk)
  case Nil
  show ?case by simp
next
  case (Cons b rest)
  let ?blk = "case fst (disk_read (disk fs) b) of None \<Rightarrow> blk | Some x \<Rightarrow> x"
  let ?fs1 = "fs\<lparr>disk := snd (disk_read (disk fs) b)\<rparr>"
  let ?fs2 = "snd (mount_inodes [0..<INODES_PER_BLOCK] ?blk ?fs1)"
  have "untouched fs ?fs1" by (rule untouched_disk_read)
  moreover have "untouched ?fs1 ?fs2" by (rule untouched_mount_inodes)
  ultimately have u2: "untouched fs ?fs2" by (rule untouched_trans)
  have "untouched ?fs2 (snd (mount_blocks rest ?blk ?fs2))" by (rule Cons.IH)
  with u2 have "untouched fs (snd (mount_blocks rest ?blk ?fs2))" by (rule untouched_trans)
  with u2 show ?case
    by (simp del: mount_blocks.simps add: mount_blocks_Cons)
qed

lemma fst_mount_blocks:
  "dk_ok (disk fs) \<Longrightarrow> \<forall>b\<in>set bs. b < dk_blocks (disk fs) \<Longrightarrow>
   fst (mount_blocks bs blk fs) =
     (\<forall>b\<in>set bs. \<forall>j<INODES_PER_BLOCK.
        indirect_readable (dk_blocks (disk fs)) (dk_image (disk fs) b) j)"
proof (induction bs arbitrary: fs blk)
  case Nil
  show ?case by simp
next
  case (Cons b rest)
  let ?blk = "case fst (disk_read (disk fs) b) of None \<Rightarrow> blk | Some x \<Rightarrow> x"
  let ?fs1 = "fs\<lparr>disk := snd (disk_read (disk fs) b)\<rparr>"
  let ?fs2 = "snd (mount_inodes [0..<INODES_PER_BLOCK] ?blk ?fs1)"
  from Cons.prems have blk: "?blk = dk_image (disk fs) b"
    by (simp add: dk_simps)
  have u1: "untouched fs ?fs1" by (rule untouched_disk_read)
  moreover have "untouched ?fs1 ?fs2" by (rule untouched_mount_inodes)
  ultimately have u2: "untouched fs ?fs2" by (rule untouched_trans)
  from u1 Cons.prems(1) have o1: "dk_ok (disk ?fs1)" and b1: "dk_blocks (disk ?fs1) = dk_blocks (disk fs)"
    by (simp_all add: untouched_def)
  from u2 Cons.prems(1) have o2: "dk_ok (disk ?fs2)" and b2: "dk_blocks (disk ?fs2) = dk_blocks (disk fs)"
    and i2: "dk_image (disk ?fs2) = dk_image (disk fs)"
    by (simp_all add: untouched_def)
  have first: "fst (mount_inodes [0..<INODES_PER_BLOCK] ?blk ?fs1) =
      (\<forall>j<INODES_PER_BLOCK. indirect_readable (dk_blocks (disk fs)) (dk_image (disk fs) b) j)"
    unfolding fst_mount_inodes [OF o1] b1 blk by auto
  from Cons.prems(2) b2 have "\<forall>b\<in>set rest. b < dk_blocks (disk ?fs2)" by simp
  from Cons.IH [OF o2 this, of ?blk]
  have rest: "fst (mount_blocks rest ?blk ?fs2) =
      (\<forall>b\<in>set rest. \<forall>j<INODES_PER_BLOCK.
        indirect_readable (dk_blocks (disk fs)) (dk_image (disk fs) b) j)"
    by (simp only: b2 i2)
  show ?case
    unfolding mount_blocks_Cons using first rest by (simp del: mount_blocks.simps)
qed

lemma unat_inode_blocks:
  assumes "sb_valid s n"
  shows "unat (inode_blocks s) \<le> n div 10 + 1"
proof -
  from assms have ib: "inode_blocks s = sb_blocks s div 10 + (if sb_blocks s mod 10 \<noteq> 0 then 1 else 0)"
    and n: "unat (sb_blocks s) = n"
    by (simp_all add: sb_valid_def)
  have "unat (sb_blocks s div 10 + (if sb_blocks s mod 10 \<noteq> 0 then 1 else 0))
      \<le> unat (sb_blocks s div 10) + unat (if sb_blocks s mod 10 \<noteq> 0 then 1 else 0 :: uint32)"
    by (simp add: unat_word_ariths)
  also have "\<dots> \<le> n div 10 + 1"
    using n by (simp add: unat_div)
  finally show ?thesis using ib by simp
qed

lemma inode_blocks_inside: "sb_valid s n \<Longrightarrow> 2 \<le> n \<Longrightarrow> unat (inode_blocks s) < n"
  using unat_inode_blocks [of s n] by arith

lemma untouched_mount_scan:
  "dk_blocks (disk (snd (mount_scan uninit fs dk sb))) = dk_blocks dk"
  "dk_image (disk (snd (mount_scan uninit fs dk sb))) = dk_image dk"
  "dk_ok dk \<Longrightarrow> dk_ok (disk (snd (mount_scan uninit fs dk sb)))"
  "free_blocks (snd (mount_scan uninit fs dk sb)) \<noteq> None"
  using untouched_mount_blocks [of "fs_initialize_free_block_bitmap (fs\<lparr>disk := dk, meta_data := block_super sb\<rparr>) sb"
      "[1..<unat (inode_blocks (block_super sb)) + 1]" uninit]
    init_bitmap(2) [of "fs\<lparr>disk := dk, meta_data := block_super sb\<rparr>" sb]
  by (auto simp add: untouched_def mount_scan_def init_bitmap(3) simp del: upt_Suc)

lemma fst_mount_scan:
  assumes ok: "dk_ok dk" and ib: "unat (inode_blocks (block_super sb)) < dk_blocks dk"
  shows "fst (mount_scan uninit fs dk sb) =
     (\<forall>b\<in>{1..unat (inode_blocks (block_super sb))}. \<forall>j<INODES_PER_BLOCK.
        indirect_readable (dk_blocks dk) (dk_image dk b) j)"
proof -
  let ?fs = "fs_initialize_free_block_bitmap (fs\<lparr>disk := dk, meta_data := block_super sb\<rparr>) sb"
  have d: "disk ?fs = dk" by (simp add: init_bitmap)
  have "fst (mount_blocks [1..<unat (inode_blocks (block_super sb)) + 1] uninit ?fs) =
     (\<forall>b\<in>set [1..<unat (inode_blocks (block_super sb)) + 1]. \<forall>j<INODES_PER_BLOCK.
        indirect_readable (dk_blocks (disk ?fs)) (dk_image (disk ?fs) b) j)"
    by (rule fst_mount_blocks) (use ok ib d in auto)
  then show ?thesis
    unfolding mount_scan_def d by (auto simp del: upt_Suc)
qed

lemma fs_mount_result:
  assumes nf: "faults d = []" and n1: "blocks d \<noteq> 1"
  shows "fst (fs_mount uninit fs (Some d)) =
     (free_blocks fs = None \<and> 0 < blocks d \<and> sb_valid (block_super (image d 0)) (blocks d) \<and>
      table_readable d)"
proof -
  have ok: "dk_ok (Some d)" using nf by (simp add: dk_ok_def)
  note rd = fst_disk_read [OF ok, of 0] dk_ok_disk_read [OF ok, of 0]
    dk_image_disk_read [of "Some d" 0] dk_blocks_disk_read [of "Some d" 0]
  have obs: "dk_blocks (Some d) = blocks d" "dk_image (Some d) = image d"
    by (simp_all add: dk_blocks_def dk_image_def)
  show ?thesis
  proof (cases "free_blocks fs = None \<and> 0 < blocks d \<and> sb_valid (block_super (image d 0)) (blocks d)")
    case False
    then show ?thesis
      by (auto simp add: fs_mount_eq rd obs)
  next
    case True
    with n1 have "2 \<le> blocks d" by simp
    with True have ib: "unat (inode_blocks (block_super (image d 0))) < dk_blocks (snd (disk_read (Some d) 0))"
      by (simp add: rd obs inode_blocks_inside)
    from True fst_mount_scan [OF rd(2) ib, of uninit fs] show ?thesis
      by (simp add: fs_mount_eq rd obs table_readable_def)
  qed
qed

lemma fs_mount_rejected:
  "free_blocks fs \<noteq> None \<or> \<not> sb_valid (block_super (image d 0)) (blocks d) \<Longrightarrow>
   fst (snd (fs_mount uninit fs (Some d))) = fs"
  by (auto simp add: fs_mount_eq split: option.splits dest!: disk_read_Some
      simp add: dk_image_def)


lemma block_super_sb_block:
  "block_super (sb_block n) =
     \<lparr>magic_number = MAGIC_NUMBER, sb_blocks = word_of_nat n,
      inode_blocks = word_of_nat ((n + 9) div 10),
      inodes = word_of_nat ((n + 9) div 10 * INODES_PER_BLOCK)\<rparr>"
  by (simp add: block_super_def sb_block_def)

lemma device_obs [simp]:
  "blocks (device n img fl) = n" "faults (device n img fl) = fl"
  "image (device n img fl) 0 = sb_block n"
  "b \<noteq> 0 \<Longrightarrow> image (device n img fl) b = img b"
  by (simp_all add: device_def)

lemma sb_valid_10: "sb_valid (block_super (sb_block 10)) 10"
  by (simp add: sb_valid_def block_super_sb_block INODES_PER_BLOCK_def)

lemma inode_blocks_10: "unat (inode_blocks (block_super (sb_block 10))) = 1"
  by (simp add: block_super_sb_block)

lemma one_inode_table:
  "j \<noteq> 0 \<Longrightarrow> block_inodes (set_block_inodes empty_block 0 node) j = iblank"
  by (simp add: block_inodes_set_other block_inodes_empty)


lemma fs_mount_mounted:
  assumes m: "fst (fs_mount uninit fs (Some d))" and nf: "faults d = []"
  shows "dk_ok (disk (fst (snd (fs_mount uninit fs (Some d)))))"
    and "dk_blocks (disk (fst (snd (fs_mount uninit fs (Some d))))) = blocks d"
    and "dk_image (disk (fst (snd (fs_mount uninit fs (Some d))))) = image d"
    and "meta_data (fst (snd (fs_mount uninit fs (Some d)))) = block_super (image d 0)"
    and "free_blocks (fst (snd (fs_mount uninit fs (Some d)))) \<noteq> None"
proof -
  have ok: "dk_ok (Some d)" using nf by (simp add: dk_ok_def)
  from m obtain sb where rd: "fst (disk_read (Some d) 0) = Some sb"
    by (cases "fst (disk_read (Some d) 0)") (auto simp add: fs_mount_eq split: if_splits)
  from disk_read_Some [OF rd] have sb: "sb = image d 0" by (simp add: dk_image_def)
  from m rd have res: "fst (snd (fs_mount uninit fs (Some d))) =
      snd (mount_scan uninit fs (snd (disk_read (Some d) 0)) sb)"
    by (simp add: fs_mount_eq split: if_splits)
  have obs: "dk_blocks (Some d) = blocks d" "dk_image (Some d) = image d"
    by (simp_all add: dk_blocks_def dk_image_def)
  show "dk_ok (disk (fst (snd (fs_mount uninit fs (Some d)))))"
    unfolding res by (rule untouched_mount_scan(3)) (simp add: dk_simps ok)
  show "dk_blocks (disk (fst (snd (fs_mount uninit fs (Some d))))) = blocks d"
    unfolding res by (simp add: untouched_mount_scan dk_simps obs)
  show "dk_image (disk (fst (snd (fs_mount uninit fs (Some d))))) = image d"
    unfolding res by (simp add: untouched_mount_scan dk_simps obs)
  show "meta_data (fst (snd (fs_mount uninit fs (Some d)))) = block_super (image d 0)"
    unfolding res by (simp add: mount_scan_meta sb)
  show "free_blocks (fst (snd (fs_mount uninit fs (Some d)))) \<noteq> None"
    unfolding res by (rule untouched_mount_scan(4))
qed

text \<open>No store outside the bitmap when every pointer is inside the device.\<close>

lemma overrun_fold_store:
  assumes "free_blocks fs \<noteq> None" and "\<forall>k\<in>set ks. P k \<longrightarrow> f k < dk_blocks (disk fs)"
  shows "overrun (fold (\<lambda>k fs'. if P k then bitmap_store fs' (f k) False else fs') ks fs) = overrun fs"
  using assms
proof (induction ks arbitrary: fs)
  case Nil
  show ?case by simp
next
  case (Cons k ks)
  show ?case
  proof (cases "P k")
    case False
    with Cons show ?thesis by simp
  next
    case True
    with Cons.prems have in_range: "f k < dk_blocks (disk fs)" by simp
    have "overrun (fold (\<lambda>k fs'. if P k then bitmap_store fs' (f k) False else fs') ks
        (bitmap_store fs (f k) False)) = overrun (bitmap_store fs (f k) False)"
      by (rule Cons.IH) (use Cons.prems in simp_all)
    with True in_range Cons.prems(1) show ?thesis
      by (auto simp add: overrun_bitmap_store)
  qed
qed

lemma overrun_mount_direct:
  assumes "free_blocks fs \<noteq> None" and "\<forall>p\<in>direct_refs node. p < dk_blocks (disk fs)"
  shows "overrun (mount_direct node fs) = overrun fs"
proof -
  from assms(2) have "\<forall>k\<in>set [0..<POINTERS_PER_INODE].
      direct node ! k \<noteq> 0 \<longrightarrow> unat (direct node ! k) < dk_blocks (disk fs)"
    unfolding direct_refs_def by fastforce
  with assms(1) show ?thesis
    unfolding mount_direct_def by (rule overrun_fold_store)
qed

lemma overrun_mount_pointers:
  assumes "free_blocks fs \<noteq> None" and "\<forall>p\<in>pointer_refs blk. p < dk_blocks (disk fs)"
  shows "overrun (mount_pointers blk fs) = overrun fs"
proof -
  from assms(2) have "\<forall>l\<in>set [0..<POINTERS_PER_BLOCK].
      block_pointers blk l \<noteq> 0 \<longrightarrow> unat (block_pointers blk l) < dk_blocks (disk fs)"
    unfolding pointer_refs_def by fastforce
  with assms(1) show ?thesis
    unfolding mount_pointers_def by (rule overrun_fold_store)
qed

lemma overrun_mount_inodes:
  assumes "dk_ok (disk fs)" and "free_blocks fs \<noteq> None"
    and "\<forall>j\<in>set js. valid (block_inodes blk j) \<noteq> 0 \<longrightarrow>
           (\<forall>p\<in>inode_refs (dk_image (disk fs)) (block_inodes blk j). p < dk_blocks (disk fs))"
  shows "overrun (snd (mount_inodes js blk fs)) = overrun fs"
  using assms
proof (induction js arbitrary: fs)
  case Nil
  show ?case by simp
next
  case (Cons j rest)
  let ?node = "block_inodes blk j"
  let ?q = "unat (indirect ?node)"
  let ?fs1 = "mount_direct ?node fs"
  let ?fs2 = "(bitmap_store ?fs1 ?q False)\<lparr>disk := snd (disk_read (disk ?fs1) ?q)\<rparr>"
  let ?fs3 = "mount_pointers (dk_image (disk fs) ?q) ?fs2"
  have u1: "untouched fs ?fs1" by (rule untouched_mount_direct)
  have u2: "untouched fs ?fs2" by (rule untouched_step)
  have "untouched ?fs2 ?fs3" by (rule untouched_mount_pointers)
  with u2 have u3: "untouched fs ?fs3" by (rule untouched_trans)
  note ok = Cons.prems(1) and fb = Cons.prems(2)
  have rest: "\<forall>j\<in>set rest. valid (block_inodes blk j) \<noteq> 0 \<longrightarrow>
           (\<forall>p\<in>inode_refs (dk_image (disk fs')) (block_inodes blk j). p < dk_blocks (disk fs'))"
    if "untouched fs fs'" for fs'
    using Cons.prems(3) that by (simp add: untouched_def)
  have ih: "overrun (snd (mount_inodes rest blk fs')) = overrun fs'" if "untouched fs fs'" for fs'
    by (rule Cons.IH) (use that ok fb rest [OF that] in \<open>auto simp add: untouched_def\<close>)
  show ?case
  proof (cases "valid ?node = 0")
    case True
    then show ?thesis
      using ih [of fs] by (simp del: mount_inodes.simps add: mount_inodes_Cons)
  next
    case v: False
    with Cons.prems(3) have refs: "\<forall>p\<in>inode_refs (dk_image (disk fs)) ?node. p < dk_blocks (disk fs)"
      by simp
    then have dr: "\<forall>p\<in>direct_refs ?node. p < dk_blocks (disk fs)"
      by (simp add: inode_refs_def)
    have o1: "overrun ?fs1 = overrun fs"
      using fb dr by (rule overrun_mount_direct)
    show ?thesis
    proof (cases "indirect ?node = 0")
      case True
      with v show ?thesis
        using ih [OF u1] o1 by (simp del: mount_inodes.simps add: mount_inodes_Cons)
    next
      case i: False
      with refs have q: "?q < dk_blocks (disk fs)"
        and pr: "\<forall>p\<in>pointer_refs (dk_image (disk fs) ?q). p < dk_blocks (disk fs)"
        by (simp_all add: inode_refs_def)
      from u1 ok fb have f1: "dk_ok (disk ?fs1)" "free_blocks ?fs1 \<noteq> None"
        "dk_blocks (disk ?fs1) = dk_blocks (disk fs)" "dk_image (disk ?fs1) = dk_image (disk fs)"
        by (simp_all add: untouched_def)
      have rd: "fst (disk_read (disk ?fs1) ?q) = Some (dk_image (disk fs) ?q)"
        using q by (simp add: fst_disk_read f1)
      have o2: "overrun ?fs2 = overrun fs"
        using q f1 o1 by (auto simp add: overrun_bitmap_store)
      from u2 ok fb have f2: "free_blocks ?fs2 \<noteq> None" "dk_blocks (disk ?fs2) = dk_blocks (disk fs)"
        by (simp_all add: untouched_def)
      have o3: "overrun ?fs3 = overrun ?fs2"
        by (rule overrun_mount_pointers) (use f2 pr in simp_all)
      from v i show ?thesis
        using ih [OF u3] o3 o2 by (simp del: mount_inodes.simps add: mount_inodes_Cons rd)
    qed
  qed
qed

lemma overrun_mount_blocks:
  assumes "dk_ok (disk fs)" and "free_blocks fs \<noteq> None"
    and "\<forall>b\<in>set bs. b < dk_blocks (disk fs) \<and> (\<forall>j<INODES_PER_BLOCK.
           valid (block_inodes (dk_image (disk fs) b) j) \<noteq> 0 \<longrightarrow>
           (\<forall>p\<in>inode_refs (dk_image (disk fs)) (block_inodes (dk_image (disk fs) b) j).
              p < dk_blocks (disk fs)))"
  shows "overrun (snd (mount_blocks bs blk fs)) = overrun fs"
  using assms
proof (induction bs arbitrary: fs blk)
  case Nil
  show ?case by simp
next
  case (Cons b rest)
  note ok = Cons.prems(1) and fb = Cons.prems(2)
  let ?blk = "case fst (disk_read (disk fs) b) of None \<Rightarrow> blk | Some x \<Rightarrow> x"
  let ?fs1 = "fs\<lparr>disk := snd (disk_read (disk fs) b)\<rparr>"
  let ?fs2 = "snd (mount_inodes [0..<INODES_PER_BLOCK] ?blk ?fs1)"
  from Cons.prems(3) have b: "b < dk_blocks (disk fs)" by simp
  then have blk: "?blk = dk_image (disk fs) b" using ok by (simp add: fst_disk_read)
  have u1: "untouched fs ?fs1" by (rule untouched_disk_read)
  moreover have "untouched ?fs1 ?fs2" by (rule untouched_mount_inodes)
  ultimately have u2: "untouched fs ?fs2" by (rule untouched_trans)
  from u1 ok fb have f1: "dk_ok (disk ?fs1)" "free_blocks ?fs1 \<noteq> None"
    "dk_blocks (disk ?fs1) = dk_blocks (disk fs)" "dk_image (disk ?fs1) = dk_image (disk fs)"
    by (simp_all add: untouched_def)
  have o2: "overrun ?fs2 = overrun ?fs1"
    unfolding blk
    by (rule overrun_mount_inodes) (use f1 Cons.prems(3) in \<open>simp_all del: upt_Suc\<close>)
  have o3: "overrun (snd (mount_blocks rest ?blk ?fs2)) = overrun ?fs2"
    by (rule Cons.IH) (use u2 ok fb Cons.prems(3) in \<open>auto simp add: untouched_def\<close>)
  show ?case
    using o2 o3 by (simp del: mount_blocks.simps add: mount_blocks_Cons)
qed

lemma overrun_init: "overrun (fs_initialize_free_block_bitmap fs sb) = overrun fs"
proof -
  have "overrun (fold f ks fs0) = overrun fs0"
    if "\<And>k fs. overrun (f k fs) = overrun fs" for f :: "nat \<Rightarrow> FileSystem \<Rightarrow> FileSystem" and ks fs0
    using that by (rule fold_pres)
  then show ?thesis
    by (simp add: fs_initialize_free_block_bitmap_def)
qed

lemma overrun_mount_scan:
  assumes ok: "dk_ok dk" and ib: "unat (inode_blocks (block_super sb)) < dk_blocks dk"
    and ins: "\<forall>b\<in>{1..unat (inode_blocks (block_super sb))}. \<forall>j<INODES_PER_BLOCK.
        valid (block_inodes (dk_image dk b) j) \<noteq> 0 \<longrightarrow>
        (\<forall>p\<in>inode_refs (dk_image dk) (block_inodes (dk_image dk b) j). p < dk_blocks dk)"
  shows "overrun (snd (mount_scan uninit fs dk sb)) = overrun fs"
proof -
  let ?fs = "fs_initialize_free_block_bitmap (fs\<lparr>disk := dk, meta_data := block_super sb\<rparr>) sb"
  have d: "disk ?fs = dk" by (simp add: init_bitmap)
  have "overrun (snd (mount_blocks [1..<unat (inode_blocks (block_super sb)) + 1] uninit ?fs)) =
      overrun ?fs"
  proof (rule overrun_mount_blocks)
    show "dk_ok (disk ?fs)" using ok d by simp
    show "free_blocks ?fs \<noteq> None" by (rule init_bitmap)
    have r: "p < dk_blocks dk"
      if "1 \<le> b" "b \<le> unat (inode_blocks (block_super sb))" "j < INODES_PER_BLOCK"
        "valid (block_inodes (dk_image dk b) j) \<noteq> 0"
        "p \<in> inode_refs (dk_image dk) (block_inodes (dk_image dk b) j)" for b j p
      using ins that by (simp add: Ball_def)
    show "\<forall>b\<in>set [1..<unat (inode_blocks (block_super sb)) + 1].
        b < dk_blocks (disk ?fs) \<and> (\<forall>j<INODES_PER_BLOCK.
           valid (block_inodes (dk_image (disk ?fs) b) j) \<noteq> 0 \<longrightarrow>
           (\<forall>p\<in>inode_refs (dk_image (disk ?fs)) (block_inodes (dk_image (disk ?fs) b) j).
              p < dk_blocks (disk ?fs)))"
      unfolding d using ib r by (auto simp del: upt_Suc)
  qed
  then show ?thesis
    by (simp add: mount_scan_def overrun_init del: upt_Suc)
qed

lemma pointers_inside_readable:
  assumes "pointers_inside d"
  shows "table_readable d"
  unfolding table_readable_def indirect_readable_def
proof (intro ballI allI impI)
  fix b j
  assume b: "b \<in> {1..unat (inode_blocks (block_super (image d 0)))}" and j: "j < INODES_PER_BLOCK"
  let ?node = "block_inodes (image d b) j"
  show "valid ?node = 0 \<or> indirect ?node = 0 \<or> unat (indirect ?node) < blocks d"
  proof (cases "valid ?node = 0 \<or> indirect ?node = 0")
    case True
    then show ?thesis by auto
  next
    case False
    then have "unat (indirect ?node) \<in> inode_refs (image d) ?node"
      by (simp add: inode_refs_def)
    with assms b j False show ?thesis
      unfolding pointers_inside_def by blast
  qed
qed

lemma fs_mount_fails:
  assumes "free_blocks fs \<noteq> None \<or> \<not> sb_valid (block_super (image d 0)) (blocks d)"
  shows "fst (fs_mount uninit fs (Some d)) = False"
  using assms
  by (auto simp add: fs_mount_eq split: option.splits dest!: disk_read_Some simp add: dk_image_def)

lemma fs_mount_clean:
  assumes m: "fst (fs_mount uninit fs (Some d))" and nf: "faults d = []" and n1: "1 < blocks d"
    and ins: "pointers_inside d"
  shows "overrun (fst (snd (fs_mount uninit fs (Some d)))) = overrun fs"
proof -
  have ok: "dk_ok (Some d)" using nf by (simp add: dk_ok_def)
  from m obtain sb where rd: "fst (disk_read (Some d) 0) = Some sb"
    by (cases "fst (disk_read (Some d) 0)") (auto simp add: fs_mount_eq split: if_splits)
  from disk_read_Some [OF rd] have sb: "sb = image d 0" by (simp add: dk_image_def)
  from m rd have v: "sb_valid (block_super sb) (blocks d)"
    by (auto simp add: fs_mount_eq split: if_splits)
  from m rd have res: "fst (snd (fs_mount uninit fs (Some d))) =
      snd (mount_scan uninit fs (snd (disk_read (Some d) 0)) sb)"
    by (simp add: fs_mount_eq split: if_splits)
  have obs: "dk_blocks (Some d) = blocks d" "dk_image (Some d) = image d"
    by (simp_all add: dk_blocks_def dk_image_def)
  from v n1 have ib: "unat (inode_blocks (block_super sb)) < blocks d"
    by (simp add: inode_blocks_inside)
  show ?thesis
    unfolding res
    by (rule overrun_mount_scan)
      (use ok ib ins in \<open>auto simp add: dk_simps obs sb pointers_inside_def\<close>)
qed

lemma pointers_inside_one:
  assumes l: "length (direct node) = POINTERS_PER_INODE"
    and r: "\<forall>p\<in>inode_refs img node. p < n"
    and t: "img (Suc 0) = set_block_inodes empty_block 0 node"
    and ib: "unat (inode_blocks (block_super (sb_block n))) = 1"
  shows "pointers_inside (device n img fl)"
proof -
  have i: "inode_refs (image (device n img fl)) node = inode_refs img node"
  proof (cases "indirect node = 0")
    case True
    then show ?thesis by (simp add: inode_refs_def)
  next
    case False
    with r have "unat (indirect node) \<noteq> 0 \<or> True" by simp
    show ?thesis
    proof (cases "unat (indirect node) = 0")
      case True
      with False show ?thesis by (simp add: unat_eq_0)
    next
      case nz: False
      with False show ?thesis by (simp add: inode_refs_def)
    qed
  qed
  have "p < n" if "j < INODES_PER_BLOCK"
    "valid (block_inodes (set_block_inodes empty_block 0 node) j) \<noteq> 0"
    "p \<in> inode_refs (image (device n img fl)) (block_inodes (set_block_inodes empty_block 0 node) j)"
    for j p
  proof (cases "j = 0")
    case True
    with that l r i show ?thesis by (simp add: block_inodes_set_same)
  next
    case False
    with that show ?thesis by (simp add: one_inode_table)
  qed
  then show ?thesis
    by (simp add: pointers_inside_def ib t)
qed

lemma pointers_inside_dev_a: "pointers_inside (dev_a [])"
  unfolding dev_a_def
  by (rule pointers_inside_one)
    (simp_all add: file_node_def POINTERS_PER_INODE_def inode_refs_def direct_refs_eq inode_blocks_10)

lemma upt_inodes: "[0..<INODES_PER_BLOCK] = 0 # [1..<INODES_PER_BLOCK]"
  by (simp add: INODES_PER_BLOCK_def upt_conv_Cons)

section \<open>Claim C4\<close>

text \<open>
  Claim C4, as amended. For every device and every fault schedule, \<^verbatim>\<open>fs_mount\<close> fails,
  and leaves the file system structure as it was, whenever the file system is already
  mounted, or the superblock in block 0 fails one of the four checks (magic number,
  block count equal to the device's, inode blocks, inodes). When the file system is not
  mounted and the four checks pass, it succeeds, without a store outside the bitmap, and
  leaves the device bound, the superblock cached and the bitmap allocated, provided that
  no transfer fails, the device has more than one block, and every block pointer of
  every valid inode of the table (direct, indirect, and the entries of the indirect
  block) is smaller than the block count.
\<close>

theorem C4_mount:
  "(free_blocks fs \<noteq> None \<or> \<not> sb_valid (block_super (image d 0)) (blocks d) \<longrightarrow>
      fst (fs_mount uninit fs (Some d)) = False \<and>
      fst (snd (fs_mount uninit fs (Some d))) = fs) \<and>
   (free_blocks fs = None \<and> sb_valid (block_super (image d 0)) (blocks d) \<and>
    faults d = [] \<and> 1 < blocks d \<and> pointers_inside d \<longrightarrow>
      fst (fs_mount uninit fs (Some d)) = True \<and>
      overrun (fst (snd (fs_mount uninit fs (Some d)))) = overrun fs \<and>
      free_blocks (fst (snd (fs_mount uninit fs (Some d)))) \<noteq> None \<and>
      meta_data (fst (snd (fs_mount uninit fs (Some d)))) = block_super (image d 0) \<and>
      dk_blocks (disk (fst (snd (fs_mount uninit fs (Some d))))) = blocks d \<and>
      dk_image (disk (fst (snd (fs_mount uninit fs (Some d))))) = image d)"
proof (intro conjI impI)
  assume r: "free_blocks fs \<noteq> None \<or> \<not> sb_valid (block_super (image d 0)) (blocks d)"
  then show "fst (fs_mount uninit fs (Some d)) = False" by (rule fs_mount_fails)
  from r show "fst (snd (fs_mount uninit fs (Some d))) = fs" by (rule fs_mount_rejected)
next
  assume a: "free_blocks fs = None \<and> sb_valid (block_super (image d 0)) (blocks d) \<and>
    faults d = [] \<and> 1 < blocks d \<and> pointers_inside d"
  then have nf: "faults d = []" and n1: "blocks d \<noteq> 1" and n2: "1 < blocks d"
    and ins: "pointers_inside d" by simp_all
  from a have m: "fst (fs_mount uninit fs (Some d))"
    by (simp add: fs_mount_result [OF nf n1] pointers_inside_readable)
  then show "fst (fs_mount uninit fs (Some d)) = True" by simp
  show "overrun (fst (snd (fs_mount uninit fs (Some d)))) = overrun fs"
    using m nf n2 ins by (rule fs_mount_clean)
  show "free_blocks (fst (snd (fs_mount uninit fs (Some d)))) \<noteq> None"
    using m nf by (rule fs_mount_mounted)
  show "meta_data (fst (snd (fs_mount uninit fs (Some d)))) = block_super (image d 0)"
    using m nf by (rule fs_mount_mounted)
  show "dk_blocks (disk (fst (snd (fs_mount uninit fs (Some d))))) = blocks d"
    using m nf by (rule fs_mount_mounted)
  show "dk_image (disk (fst (snd (fs_mount uninit fs (Some d))))) = image d"
    using m nf by (rule fs_mount_mounted)
qed

theorem C4_mount_witness:
  "fst (fs_mount empty_block fs_zero (Some (dev_a []))) = True \<and>
   overrun (fst (snd (fs_mount empty_block fs_zero (Some (dev_a []))))) = False \<and>
   free_blocks (fst (snd (fs_mount empty_block fs_zero (Some (dev_a []))))) \<noteq> None \<and>
   dk_blocks (disk (fst (snd (fs_mount empty_block fs_zero (Some (dev_a [])))))) = 10 \<and>
   fst (fs_mount empty_block fs_zero (Some (zero_disk 10))) = False \<and>
   fst (snd (fs_mount empty_block fs_zero (Some (zero_disk 10)))) = fs_zero"
proof -
  have va: "sb_valid (block_super (image (dev_a []) 0)) (blocks (dev_a []))"
    "faults (dev_a []) = []" "1 < blocks (dev_a [])"
    by (simp_all add: dev_a_def sb_valid_10)
  have vz: "\<not> sb_valid (block_super (image (zero_disk 10) 0)) (blocks (zero_disk 10))"
    by (simp add: zero_disk_def sb_valid_def block_super_def MAGIC_NUMBER_def)
  have f: "free_blocks fs_zero = None" "overrun fs_zero = False"
    by (simp_all add: fs_zero_def unmounted_def)
  show ?thesis
    using C4_mount [of fs_zero "dev_a []" empty_block] C4_mount [of fs_zero "zero_disk 10" empty_block]
      va vz f pointers_inside_dev_a
    by (simp add: dev_a_def)
qed

text \<open>
  The claim as it stands says that \<^verbatim>\<open>fs_mount\<close> succeeds when the validations pass.
  On device R they pass and every pointer is inside the device, but the read of the
  indirect block of inode 0 fails (line 176): \<^verbatim>\<open>fs_mount\<close> returns false, with the
  device bound and the bitmap allocated.
\<close>

theorem C4_mount_counterexample:
  "free_blocks fs_zero = None \<and>
   sb_valid (block_super (image dev_r 0)) (blocks dev_r) \<and>
   pointers_inside dev_r \<and>
   fst (fs_mount empty_block fs_zero (Some dev_r)) = False \<and>
   free_blocks (fst (snd (fs_mount empty_block fs_zero (Some dev_r)))) \<noteq> None \<and>
   disk (fst (snd (fs_mount empty_block fs_zero (Some dev_r)))) \<noteq> None"
proof -
  have f: "free_blocks fs_zero = None"
    by (simp add: fs_zero_def unmounted_def)
  have v: "sb_valid (block_super (image dev_r 0)) (blocks dev_r)"
    by (simp add: dev_r_def sb_valid_10)
  have ins: "pointers_inside dev_r"
    unfolding dev_r_def
    by (rule pointers_inside_one)
      (simp_all add: file_node_def POINTERS_PER_INODE_def inode_refs_def direct_refs_eq
        inode_blocks_10 pointer_refs_def block_pointers_empty)
  define d1 where "d1 = dev_r\<lparr>faults := [False, True], reads := 1\<rparr>"
  define d2 where "d2 = dev_r\<lparr>faults := [True], reads := 2\<rparr>"
  define d3 where "d3 = dev_r\<lparr>faults := [], reads := 2\<rparr>"
  have r0: "disk_read (Some dev_r) 0 = (Some (sb_block 10), Some d1)"
    by (simp add: disk_read_def disk_sanity_check_def transfer_fails_def after_transfer_def
        dev_r_def device_def d1_def)
  have r1: "disk_read (Some d1) (Suc 0) =
      (Some (set_block_inodes empty_block 0 (file_node 5 [0, 0, 0, 0, 0] 2)), Some d2)"
    by (simp add: disk_read_def disk_sanity_check_def transfer_fails_def after_transfer_def
        dev_r_def device_def d1_def d2_def)
  have r2: "disk_read (Some d2) 2 = (None, Some d3)"
    by (simp add: disk_read_def disk_sanity_check_def transfer_fails_def after_transfer_def
        dev_r_def device_def d2_def d3_def)
  define fs1 where "fs1 = fs_initialize_free_block_bitmap
      (fs_zero\<lparr>disk := Some d1, meta_data := block_super (sb_block 10)\<rparr>) (sb_block 10)"
  have d: "disk fs1 = Some d1" by (simp add: fs1_def init_bitmap)
  define node where "node = file_node 5 [0, 0, 0, 0, 0] 2"
  have n: "block_inodes (set_block_inodes empty_block 0 node) 0 = node"
    by (simp add: block_inodes_set_same node_def file_node_def POINTERS_PER_INODE_def)
  have nv: "valid node \<noteq> 0" "indirect node \<noteq> 0" "unat (indirect node) = 2"
    by (simp_all add: node_def file_node_def)
  have s: "mount_scan empty_block fs_zero (Some d1) (sb_block 10) =
      (False, (bitmap_store (mount_direct node (fs1\<lparr>disk := Some d2\<rparr>)) 2 False)\<lparr>disk := Some d3\<rparr>)"
    unfolding mount_scan_def inode_blocks_10 fs1_def [symmetric]
    by (simp del: mount_inodes.simps mount_blocks.simps
        add: mount_blocks_Cons d r1 upt_inodes mount_inodes_Cons n
          node_def [symmetric] nv mount_direct_frame r2)
  have m: "fs_mount empty_block fs_zero (Some dev_r) =
      (False, (bitmap_store (mount_direct node (fs1\<lparr>disk := Some d2\<rparr>)) 2 False)\<lparr>disk := Some d3\<rparr>,
       Some d3)"
    by (simp add: fs_mount_eq f r0 s) (simp add: dev_r_def sb_valid_10)
  have u: "untouched (fs1\<lparr>disk := Some d2\<rparr>) (mount_direct node (fs1\<lparr>disk := Some d2\<rparr>))"
    by (rule untouched_mount_direct)
  have "free_blocks fs1 \<noteq> None" unfolding fs1_def by (rule init_bitmap)
  with u have "free_blocks (mount_direct node (fs1\<lparr>disk := Some d2\<rparr>)) \<noteq> None"
    by (simp add: untouched_def)
  with f v ins show ?thesis
    by (simp add: m)
qed

section \<open>Writing\<close>

lemma write_count_le: "bw \<le> len \<Longrightarrow> bw + write_count bp len bw \<le> len"
  unfolding write_count_def by (cases "BLOCK_SIZE - bp \<le> len - bw") auto

lemma write_block_eq:
  "write_block uninit fs p data bw tw =
     fs\<lparr>disk := snd (disk_write (snd (disk_read (disk fs) p)) p
        (memcpy (case fst (disk_read (disk fs) p) of None \<Rightarrow> uninit | Some b \<Rightarrow> b) 0 data bw tw))\<rparr>"
  by (simp add: write_block_def case_prod_beta Let_def)

lemma write_block_frame:
  "free_blocks (write_block uninit fs p data bw tw) = free_blocks fs"
  "meta_data (write_block uninit fs p data bw tw) = meta_data fs"
  "dk_blocks (disk (write_block uninit fs p data bw tw)) = dk_blocks (disk fs)"
  "bitmap_get (write_block uninit fs p data bw tw) i = bitmap_get fs i"
  "dk_ok (disk fs) \<Longrightarrow> dk_ok (disk (write_block uninit fs p data bw tw))"
  by (simp_all add: write_block_eq dk_simps)

lemma write_block_image:
  "dk_ok (disk fs) \<Longrightarrow>
   dk_image (disk (write_block uninit fs p data bw tw)) =
     (if p < dk_blocks (disk fs)
      then (dk_image (disk fs))(p := memcpy (dk_image (disk fs) p) 0 data bw tw)
      else dk_image (disk fs))"
  by (simp add: write_block_eq dk_simps)

lemma kept_refl [simp]: "kept fs fs"
  by (simp add: kept_def)

lemma kept_trans: "kept fs fs1 \<Longrightarrow> kept fs1 fs2 \<Longrightarrow> kept fs fs2"
  by (simp add: kept_def)

lemma same_file_refl [simp]: "same_file node node"
  by (simp add: same_file_def)

lemma same_file_trans: "same_file a b \<Longrightarrow> same_file b c \<Longrightarrow> same_file a c"
  by (simp add: same_file_def)

lemma kept_write_block: "kept fs (write_block uninit fs p data bw tw)"
  by (simp add: kept_def write_block_frame)

lemma kept_find_free: "kept fs (snd (fs_find_free fs))"
  by (auto simp add: kept_def fs_find_free_frame fs_find_free_ok dest: fs_find_free_mono)

lemma kept_disk_write: "kept fs (fs\<lparr>disk := snd (disk_write (disk fs) p b)\<rparr>)"
  by (simp add: kept_def dk_simps)

lemma kept_disk_read: "kept fs (fs\<lparr>disk := snd (disk_read (disk fs) p)\<rparr>)"
  by (simp add: kept_def dk_simps)

lemma alloc_direct_kept:
  "kept fs (fst (snd (alloc_direct fs node i)))"
  "same_file node (snd (snd (alloc_direct fs node i)))"
  by (simp_all add: alloc_direct_def case_prod_beta kept_find_free same_file_def)

lemma alloc_indirect_kept:
  "kept fs (fst (snd (alloc_indirect fs node)))"
  "same_file node (snd (snd (alloc_indirect fs node)))"
  by (simp_all add: alloc_indirect_def case_prod_beta kept_find_free same_file_def)

lemma alloc_pointer_kept:
  "kept fs (fst (snd (alloc_pointer fs ip ind i)))"
  by (auto simp add: alloc_pointer_def case_prod_beta kept_find_free
      intro: kept_trans [OF kept_find_free kept_disk_write])

lemma write_direct_inv:
  "bw \<le> len \<Longrightarrow>
   (case write_direct is uninit data len fs node bp bw of
      (stop, fs', node', bp', bw') \<Rightarrow>
        kept fs fs' \<and> same_file node node' \<and> bw \<le> bw' \<and> bw' \<le> len)"
proof (induction "is" arbitrary: fs node bp bw)
  case Nil
  then show ?case by simp
next
  case (Cons i rest)
  obtain s1 fs1 node1 where a: "alloc_direct fs node i = (s1, fs1, node1)"
    by (cases "alloc_direct fs node i") auto
  from alloc_direct_kept [where fs = fs and node = node and i = i] a have k1: "kept fs fs1" and f1: "same_file node node1"
    by simp_all
  show ?case
  proof (cases s1)
    case True
    with a k1 f1 Cons.prems show ?thesis by simp
  next
    case False
    define tw where "tw = write_count bp len bw"
    define fs2 where "fs2 = write_block uninit fs1 (unat (direct node1 ! i)) data bw tw"
    have le: "bw + tw \<le> len"
      unfolding tw_def using Cons.prems by (rule write_count_le)
    have k2: "kept fs fs2"
      unfolding fs2_def using k1 kept_write_block by (rule kept_trans)
    show ?thesis
    proof (cases "bw + tw = len")
      case True
      with a False k2 f1 show ?thesis
        by (simp add: Let_def tw_def [symmetric] fs2_def [symmetric])
    next
      case ne: False
      from Cons.IH [OF le, of fs2 node1 0]
      have "case write_direct rest uninit data len fs2 node1 0 (bw + tw) of
              (stop, fs', node', bp', bw') \<Rightarrow>
                kept fs2 fs' \<and> same_file node1 node' \<and> bw + tw \<le> bw' \<and> bw' \<le> len" .
      with k2 f1 have "case write_direct rest uninit data len fs2 node1 0 (bw + tw) of
              (stop, fs', node', bp', bw') \<Rightarrow>
                kept fs fs' \<and> same_file node node' \<and> bw \<le> bw' \<and> bw' \<le> len"
        by (auto intro: kept_trans same_file_trans)
      with a False ne show ?thesis
        by (simp add: Let_def tw_def [symmetric] fs2_def [symmetric])
    qed
  qed
qed

lemma write_pointers_inv:
  "bw \<le> len \<Longrightarrow>
   (case write_pointers is uninit data len ip fs ind bp bw of
      (fs', bw') \<Rightarrow> kept fs fs' \<and> bw \<le> bw' \<and> bw' \<le> len)"
proof (induction "is" arbitrary: fs ind bp bw)
  case Nil
  then show ?case by simp
next
  case (Cons i rest)
  obtain s1 fs1 ind1 where a: "alloc_pointer fs ip ind i = (s1, fs1, ind1)"
    by (cases "alloc_pointer fs ip ind i") auto
  from alloc_pointer_kept [of fs ip ind i] a have k1: "kept fs fs1"
    by simp
  show ?case
  proof (cases s1)
    case True
    with a k1 Cons.prems show ?thesis by simp
  next
    case False
    define tw where "tw = write_count bp len bw"
    define fs2 where "fs2 = write_block uninit fs1 (unat (block_pointers ind1 i)) data bw tw"
    have le: "bw + tw \<le> len"
      unfolding tw_def using Cons.prems by (rule write_count_le)
    have k2: "kept fs fs2"
      unfolding fs2_def using k1 kept_write_block by (rule kept_trans)
    show ?thesis
    proof (cases "bw + tw = len")
      case True
      with a False k2 show ?thesis
        by (simp add: Let_def tw_def [symmetric] fs2_def [symmetric])
    next
      case ne: False
      from Cons.IH [OF le, of fs2 ind1 0]
      have "case write_pointers rest uninit data len ip fs2 ind1 0 (bw + tw) of
              (fs', bw') \<Rightarrow> kept fs2 fs' \<and> bw + tw \<le> bw' \<and> bw' \<le> len" .
      with k2 have "case write_pointers rest uninit data len ip fs2 ind1 0 (bw + tw) of
              (fs', bw') \<Rightarrow> kept fs fs' \<and> bw \<le> bw' \<and> bw' \<le> len"
        by (auto intro: kept_trans)
      with a False ne show ?thesis
        by (simp add: Let_def tw_def [symmetric] fs2_def [symmetric])
    qed
  qed
qed

lemma write_indirect_inv:
  assumes "bw \<le> len"
  shows "case write_indirect uninit data len c fs node bp bw of
      (fs', node', bw') \<Rightarrow> kept fs fs' \<and> same_file node node' \<and> bw \<le> bw' \<and> bw' \<le> len"
proof -
  obtain s1 fs1 node1 where a: "alloc_indirect fs node = (s1, fs1, node1)"
    by (cases "alloc_indirect fs node") auto
  from alloc_indirect_kept [where fs = fs and node = node] a have k1: "kept fs fs1" and f1: "same_file node node1"
    by simp_all
  show ?thesis
  proof (cases s1)
    case True
    with a k1 f1 assms show ?thesis by (simp add: write_indirect_def)
  next
    case False
    define fs1' where "fs1' = fs1\<lparr>disk := snd (disk_read (disk fs1) (unat (indirect node1)))\<rparr>"
    have k1': "kept fs fs1'"
      unfolding fs1'_def using k1 kept_disk_read by (rule kept_trans)
    define blk where "blk = (case fst (disk_read (disk fs1) (unat (indirect node1))) of
        None \<Rightarrow> uninit | Some b \<Rightarrow> b)"
    from write_pointers_inv [OF assms, where ?is = "[nat (to_int (c - POINTERS_PER_INODE))..<POINTERS_PER_BLOCK]"
        and uninit = uninit and data = data and ip = "unat (indirect node1)" and fs = fs1' and ind = blk
        and bp = bp]
    have "case write_pointers [nat (to_int (c - POINTERS_PER_INODE))..<POINTERS_PER_BLOCK] uninit data len
            (unat (indirect node1)) fs1' blk bp bw of
          (fs', bw') \<Rightarrow> kept fs1' fs' \<and> bw \<le> bw' \<and> bw' \<le> len" .
    with k1' have "case write_pointers [nat (to_int (c - POINTERS_PER_INODE))..<POINTERS_PER_BLOCK] uninit data len
            (unat (indirect node1)) fs1' blk bp bw of
          (fs', bw') \<Rightarrow> kept fs fs' \<and> bw \<le> bw' \<and> bw' \<le> len"
      by (auto intro: kept_trans)
    moreover from k1' have "kept fs (fs1'\<lparr>overrun := True\<rparr>)"
      by (simp add: kept_def)
    ultimately show ?thesis
      using a False f1 assms
      by (simp add: write_indirect_def case_prod_beta Let_def fs1'_def blk_def)
  qed
qed

lemma kept_load: "kept fs (snd (fs_load_inode fs n))"
  by (simp add: kept_def snd_fs_load_inode)

lemma write_end_eq:
  "write_end fs n node bw =
     (int bw, snd (fs_save_inode fs n (node\<lparr>isize := isize node + word_of_nat bw\<rparr>)))"
  by (simp add: write_end_def case_prod_beta)

lemma fs_write_shape:
  assumes ld: "fst (fs_load_inode fs n) = Some node"
  shows "\<exists>fs3 node3 bw. fs_write uninit fs n data len off = write_end fs3 n node3 bw \<and>
           kept fs fs3 \<and> same_file node node3 \<and> bw \<le> len"
proof -
  define fs1 where "fs1 = snd (fs_load_inode fs n)"
  have k1: "kept fs fs1" unfolding fs1_def by (rule kept_load)
  define c where "c = off div BLOCK_SIZE"
  define bp where "bp = off mod BLOCK_SIZE"
  show ?thesis
  proof (cases "c < POINTERS_PER_INODE")
    case False
    obtain fs3 node3 n3 where w: "write_indirect uninit data len c fs1 node bp 0 = (fs3, node3, n3)"
      by (cases "write_indirect uninit data len c fs1 node bp 0") auto
    from write_indirect_inv [where bw = 0 and len = len and uninit = uninit and data = data and c = c
        and fs = fs1 and node = node and bp = bp] w
    have "kept fs1 fs3" "same_file node node3" "n3 \<le> len" by simp_all
    with k1 have "kept fs fs3" by (auto intro: kept_trans)
    moreover have "fs_write uninit fs n data len off = write_end fs3 n node3 n3"
      using ld False w
      by (simp add: fs_write_def Let_def case_prod_beta c_def [symmetric] bp_def [symmetric]
          fs1_def [symmetric])
    ultimately show ?thesis using \<open>same_file node node3\<close> \<open>n3 \<le> len\<close> by blast
  next
    case True
    obtain s2 fs2 node2 bp2 n2 where
      w: "write_direct [c..<POINTERS_PER_INODE] uninit data len fs1 node bp 0 = (s2, fs2, node2, bp2, n2)"
      by (cases "write_direct [c..<POINTERS_PER_INODE] uninit data len fs1 node bp 0") auto
    from write_direct_inv [where bw = 0 and len = len and ?is = "[c..<POINTERS_PER_INODE]"
        and uninit = uninit and data = data and fs = fs1 and node = node and bp = bp] w
    have i2: "kept fs1 fs2" "same_file node node2" "n2 \<le> len" by simp_all
    with k1 have k2: "kept fs fs2" by (auto intro: kept_trans)
    show ?thesis
    proof (cases s2)
      case s: True
      have "fs_write uninit fs n data len off = write_end fs2 n node2 n2"
        using ld True w s
        by (simp add: fs_write_def Let_def case_prod_beta c_def [symmetric] bp_def [symmetric]
            fs1_def [symmetric])
      with k2 i2 show ?thesis by blast
    next
      case s: False
      obtain fs3 node3 n3 where
        w3: "write_indirect uninit data len POINTERS_PER_INODE fs2 node2 bp2 n2 = (fs3, node3, n3)"
        by (cases "write_indirect uninit data len POINTERS_PER_INODE fs2 node2 bp2 n2") auto
      from write_indirect_inv [OF i2(3), where uninit = uninit and data = data
        and c = POINTERS_PER_INODE and fs = fs2 and node = node2 and bp = bp2] w3
      have i3: "kept fs2 fs3" "same_file node2 node3" "n3 \<le> len" by simp_all
      have "fs_write uninit fs n data len off = write_end fs3 n node3 n3"
        using ld True w s w3
        by (simp add: fs_write_def Let_def case_prod_beta c_def [symmetric] bp_def [symmetric]
            fs1_def [symmetric])
      moreover from k2 i3 have "kept fs fs3" by (auto intro: kept_trans)
      moreover from i2 i3 have "same_file node node3" by (auto intro: same_file_trans)
      ultimately show ?thesis using i3(3) by blast
    qed
  qed
qed

lemma fs_write_invalid:
  "fst (fs_load_inode fs n) = None \<Longrightarrow> fst (fs_write uninit fs n data len off) = - 1"
  by (simp add: fs_write_def Let_def case_prod_beta)

lemma fs_write_accounting:
  assumes ok: "dk_ok (disk fs)" and ld: "fst (fs_load_inode fs n) = Some node"
  shows "0 \<le> fst (fs_write uninit fs n data len off) \<and>
         fst (fs_write uninit fs n data len off) \<le> int len \<and>
         map_option isize (fst (fs_load_inode (snd (fs_write uninit fs n data len off)) n)) =
           Some (isize node + word_of_int (fst (fs_write uninit fs n data len off)))"
proof -
  from fs_write_shape [OF ld, of uninit data len off] obtain fs3 node3 bw where
    w: "fs_write uninit fs n data len off = write_end fs3 n node3 bw"
    and k: "kept fs fs3" and f: "same_file node node3" and le: "bw \<le> len"
    by blast
  define node' where "node' = node3\<lparr>isize := isize node3 + word_of_nat bw\<rparr>"
  define fs' where "fs' = snd (fs_save_inode fs3 n node')"
  have res: "fs_write uninit fs n data len off = (int bw, fs')"
    by (simp add: w write_end_eq fs'_def node'_def)
  from fs_load_inode_Some [OF ld] have rng: "slot_block n < dk_blocks (disk fs)"
    and nd: "node = slot (disk fs) n" and v: "valid node \<noteq> 0" by blast+
  have ok3: "dk_ok (disk fs3)" and bl3: "dk_blocks (disk fs3) = dk_blocks (disk fs)"
    using k ok by (simp_all add: kept_def)
  have saved: "fst (fs_save_inode fs3 n node')"
    using ok3 bl3 rng by (simp add: fst_fs_save_inode)
  have len5: "length (direct node') = POINTERS_PER_INODE"
    using f nd by (simp add: node'_def same_file_def slot_def length_direct_block_inodes)
  have sl: "slot (disk fs') n = node'"
    using saved len5 by (simp add: slot_def fs'_def dk_image_fs_save_inode block_inodes_set_same)
  have ok': "dk_ok (disk fs')" and bl': "dk_blocks (disk fs') = dk_blocks (disk fs)"
    using ok3 bl3 by (simp_all add: fs'_def snd_fs_save_inode)
  have v': "valid node' \<noteq> 0"
    using f v by (simp add: node'_def same_file_def)
  have "fst (fs_load_inode fs' n) = Some node'"
    using ok' bl' rng sl v' by (simp add: fst_fs_load_inode)
  moreover have "isize node' = isize node + word_of_nat bw"
    using f by (simp add: node'_def same_file_def)
  ultimately show ?thesis
    using le by (simp add: res)
qed

lemma no_free_find_free: "no_free fs \<Longrightarrow> fs_find_free fs = (0, fs)"
  unfolding no_free_def by (rule fs_find_free_none)

section \<open>The reserved entries of the bitmap\<close>




lemma bitmap_get_fs_save_inode [simp]:
  "bitmap_get (snd (fs_save_inode fs n node)) i = bitmap_get fs i"
  by (simp add: bitmap_get_def snd_fs_save_inode)




















section \<open>Further devices\<close>

lemma sb_valid_20: "sb_valid (block_super (sb_block 20)) 20"
  by (simp add: sb_valid_def block_super_sb_block INODES_PER_BLOCK_def)

lemma inode_blocks_20: "unat (inode_blocks (block_super (sb_block 20))) = 2"
  by (simp add: block_super_sb_block)

lemma valid_iblank_slot: "valid (block_inodes empty_block j) = 0"
  by (simp add: block_inodes_empty)

lemma table_readable_dev_b: "table_readable dev_b"
proof -
  have 1: "indirect_readable 20 (set_block_inodes empty_block 0 (file_node 32 [3, 0, 0, 0, 0] 0)) j" for j
    by (cases "j = 0")
      (simp_all add: indirect_readable_def one_inode_table block_inodes_set_same file_node_def
        POINTERS_PER_INODE_def)
  have 2: "indirect_readable 20 empty_block j" for j
    by (simp add: indirect_readable_def block_inodes_empty)
  have "b \<in> {1..2} \<Longrightarrow> indirect_readable 20 (image dev_b b) j" for b j
    using 1 [of j] 2 [of j] by (cases "b = 1") (auto simp add: dev_b_def)
  then show ?thesis
    by (simp add: table_readable_def dev_b_def inode_blocks_20)
qed

lemma mount_dev_b: "fst (fs_mount empty_block fs_zero (Some dev_b))"
  using fs_mount_result [of dev_b empty_block fs_zero] table_readable_dev_b
  by (simp add: dev_b_def sb_valid_20 fs_zero_def unmounted_def)

lemma fs_b_obs:
  "dk_ok (disk fs_b)" "dk_blocks (disk fs_b) = 20" "dk_image (disk fs_b) = image dev_b"
  "meta_data fs_b = block_super (sb_block 20)"
proof -
  have nf: "faults dev_b = []" by (simp add: dev_b_def)
  note m = fs_mount_mounted [OF mount_dev_b nf, folded fs_b_def]
  show "dk_ok (disk fs_b)" by (rule m)
  show "dk_blocks (disk fs_b) = 20" using m(2) by (simp add: dev_b_def)
  show "dk_image (disk fs_b) = image dev_b" by (rule m)
  show "meta_data fs_b = block_super (sb_block 20)" using m(4) by (simp add: dev_b_def)
qed

lemma slot_dev_b: "slot (disk fs_b) 256 = \<lparr>valid = 1, isize = 7, direct = [0, 0, 0, 0, 0], indirect = 0\<rparr>"
  by (simp add: slot_def fs_b_obs slot_block_def slot_index_def INODES_PER_BLOCK_def dev_b_def
      block_inodes_def INODE_BYTES_def POINTERS_PER_INODE_def upt5)

lemma mount_one_file:
  assumes l: "length ds = POINTERS_PER_INODE"
  shows "fst (fs_mount empty_block fs_zero (Some (one_file img (file_node sz ds 0))))"
proof -
  have "indirect_readable 10 (set_block_inodes empty_block 0 (file_node sz ds 0)) j" for j
    using l by (cases "j = 0")
      (simp_all add: indirect_readable_def one_inode_table block_inodes_set_same file_node_def)
  then have "table_readable (one_file img (file_node sz ds 0))"
    by (simp add: table_readable_def inode_blocks_10 one_file_def)
  with fs_mount_result [of "one_file img (file_node sz ds 0)" empty_block fs_zero] show ?thesis
    by (simp add: sb_valid_10 fs_zero_def unmounted_def one_file_def)
qed

lemma mounted_one_file:
  assumes l: "length ds = POINTERS_PER_INODE"
    and fs: "fs = fst (snd (fs_mount empty_block fs_zero (Some (one_file img (file_node sz ds 0)))))"
  shows "dk_ok (disk fs)" "dk_blocks (disk fs) = 10"
    "meta_data fs = block_super (sb_block 10)" "(free_blocks fs = None) = False"
    "slot (disk fs) 0 = file_node sz ds 0"
    "1 < b \<Longrightarrow> dk_image (disk fs) b = img b"
    "dk_image (disk fs) (Suc 0) = set_block_inodes empty_block 0 (file_node sz ds 0)"
proof -
  have nf: "faults (one_file img (file_node sz ds 0)) = []" by (simp add: one_file_def)
  note m = fs_mount_mounted [OF mount_one_file [OF l] nf, folded fs]
  show "dk_ok (disk fs)" by (rule m)
  show "dk_blocks (disk fs) = 10" using m(2) by (simp add: one_file_def)
  have im: "dk_image (disk fs) = (img(1 := set_block_inodes empty_block 0 (file_node sz ds 0)))(0 := sb_block 10)"
    using m(3) by (simp add: one_file_def device_def)
  show "meta_data fs = block_super (sb_block 10)" using m(4) by (simp add: one_file_def)
  show "(free_blocks fs = None) = False" using m(5) by simp
  show "slot (disk fs) 0 = file_node sz ds 0"
    using l by (simp add: slot_def im slot_block_def slot_index_def INODES_PER_BLOCK_def
        block_inodes_set_same file_node_def)
  show "1 < b \<Longrightarrow> dk_image (disk fs) b = img b" by (simp add: im)
  show "dk_image (disk fs) (Suc 0) = set_block_inodes empty_block 0 (file_node sz ds 0)"
    by (simp add: im)
qed

lemma fs_read_one_block: "fst (fs_read fs n data len off) \<le> int BLOCK_SIZE"
  by (simp add: fs_read_def read_count_def Let_def case_prod_beta BLOCK_SIZE_def split: option.splits)

lemma length5: "length [a, b, c, d, e] = POINTERS_PER_INODE"
  by (simp add: POINTERS_PER_INODE_def)

lemmas fs_c_obs = mounted_one_file [OF length5 fs_c_def [unfolded dev_c_def]]


lemma fs_c_load: "fst (fs_load_inode fs_c 0) = Some (file_node 8192 [2, 3, 0, 0, 0] 0)"
  by (simp_all add: fst_fs_load_inode fs_c_obs slot_block_def file_node_def INODES_PER_BLOCK_def)

lemma fs_c_block: "fst (disk_read (disk (snd (fs_load_inode fs_c 0))) 2) = Some (\<lambda>_. 0x41)"
    by (simp_all add: dk_simps snd_fs_load_inode fs_c_obs)

lemma fs_c_count: "read_count (file_node 8192 [2, 3, 0, 0, 0] 0) 0 = 4096"
    by (simp add: read_count_def file_node_def BLOCK_SIZE_def Let_def)

lemma fs_c_stat: "fst (fs_stat fs_c 0) = 8192"
    by (simp add: fs_stat_eq fs_c_load) (simp add: file_node_def)

lemma fs_c_read: "fst (fs_read fs_c 0 (\<lambda>_. 0) 8192 0) = 4096"
  "fst (snd (fs_read fs_c 0 (\<lambda>_. 0) 8192 0)) = memcpy (\<lambda>_. 0) 0 (\<lambda>_. 0x41) 0 4096"
   apply (simp_all add: fs_read_def case_prod_beta fs_c_load Let_def snd_fs_load_inode fs_c_obs block_super_sb_block INODES_PER_BLOCK_def
        BLOCK_SIZE_def POINTERS_PER_INODE_def)
   apply (simp_all add: file_node_def fs_c_block fs_c_count [unfolded file_node_def])
    done

lemma fs_write_within_block:
  assumes ld: "fst (fs_load_inode fs n) = Some node"
    and c: "off div BLOCK_SIZE < POINTERS_PER_INODE"
    and p: "direct node ! (off div BLOCK_SIZE) \<noteq> 0"
    and fit: "len \<le> BLOCK_SIZE - off mod BLOCK_SIZE"
  shows "fs_write uninit fs n data len off =
     write_end (write_block uninit (snd (fs_load_inode fs n))
        (unat (direct node ! (off div BLOCK_SIZE))) data 0 len) n node len"
proof -
  have u: "[off div BLOCK_SIZE..<POINTERS_PER_INODE] =
      off div BLOCK_SIZE # [Suc (off div BLOCK_SIZE)..<POINTERS_PER_INODE]"
    using c by (rule upt_conv_Cons)
  have wc: "write_count (off mod BLOCK_SIZE) len 0 = len"
    using fit by (simp add: write_count_def)
  have wd: "write_direct [off div BLOCK_SIZE..<POINTERS_PER_INODE] uninit data len fs1 node
      (off mod BLOCK_SIZE) 0 =
      (True, write_block uninit fs1 (unat (direct node ! (off div BLOCK_SIZE))) data 0 len, node,
       off mod BLOCK_SIZE, len)" for fs1
    unfolding u using p by (simp add: Let_def alloc_direct_def wc)
  show ?thesis
    using c by (simp add: fs_write_def Let_def case_prod_beta ld wd)
qed

lemma fs_write_block_start:
  assumes ok: "dk_ok (disk fs)"
    and ld: "fst (fs_load_inode fs n) = Some node"
    and c: "off div BLOCK_SIZE < POINTERS_PER_INODE"
    and p: "direct node ! (off div BLOCK_SIZE) \<noteq> 0"
    and fit: "len \<le> BLOCK_SIZE - off mod BLOCK_SIZE"
    and b: "b = unat (direct node ! (off div BLOCK_SIZE))"
    and inside: "b < dk_blocks (disk fs)" and other: "b \<noteq> slot_block n"
  shows "fst (fs_write uninit fs n data len off) = int len"
    and "dk_image (disk (snd (fs_write uninit fs n data len off))) b =
      memcpy (dk_image (disk fs) b) 0 data 0 len"
    and "slot (disk (snd (fs_write uninit fs n data len off))) n =
      node\<lparr>isize := isize node + word_of_nat len\<rparr>"
    and "dk_ok (disk (snd (fs_write uninit fs n data len off)))"
    and "dk_blocks (disk (snd (fs_write uninit fs n data len off))) = dk_blocks (disk fs)"
proof -
  define fs1 where "fs1 = snd (fs_load_inode fs n)"
  define fs2 where "fs2 = write_block uninit fs1 b data 0 len"
  have w: "fs_write uninit fs n data len off =
      (int len, snd (fs_save_inode fs2 n (node\<lparr>isize := isize node + word_of_nat len\<rparr>)))"
    unfolding fs_write_within_block [OF ld c p fit] write_end_eq fs2_def fs1_def b ..
  have ok1: "dk_ok (disk fs1)" unfolding fs1_def using ok by (rule snd_fs_load_inode)
  have ok2: "dk_ok (disk fs2)" unfolding fs2_def using ok1 by (rule write_block_frame)
  have bl: "dk_blocks (disk fs2) = dk_blocks (disk fs)"
    by (simp add: fs2_def fs1_def write_block_frame snd_fs_load_inode)
  from fs_load_inode_Some [OF ld] have sl: "slot_block n < dk_blocks (disk fs)"
    and len5: "length (direct node) = POINTERS_PER_INODE"
    by (simp_all add: slot_def length_direct_block_inodes)
  have sv: "fst (fs_save_inode fs2 n nd)" for nd
    by (simp add: fst_fs_save_inode ok2 bl sl)
  have im2: "dk_image (disk fs2) = (dk_image (disk fs))(b := memcpy (dk_image (disk fs) b) 0 data 0 len)"
    using inside by (simp add: fs2_def write_block_image ok1) (simp add: fs1_def snd_fs_load_inode)
  show "fst (fs_write uninit fs n data len off) = int len" by (simp add: w)
  show "dk_image (disk (snd (fs_write uninit fs n data len off))) b =
      memcpy (dk_image (disk fs) b) 0 data 0 len"
    using other by (simp add: w dk_image_fs_save_inode sv im2)
  show "slot (disk (snd (fs_write uninit fs n data len off))) n =
      node\<lparr>isize := isize node + word_of_nat len\<rparr>"
    using len5 by (simp add: w slot_def dk_image_fs_save_inode sv block_inodes_set_same)
  show "dk_ok (disk (snd (fs_write uninit fs n data len off)))"
    by (simp add: w snd_fs_save_inode ok2)
  show "dk_blocks (disk (snd (fs_write uninit fs n data len off))) = dk_blocks (disk fs)"
    by (simp add: w snd_fs_save_inode bl)
qed


lemmas fs_d_obs = mounted_one_file [OF length5 fs_d_def [unfolded dev_d_def]]

lemma fs_d_load: "fst (fs_load_inode fs_d 0) = Some (file_node 0 [2, 0, 0, 0, 0] 0)"
  by (simp add: fst_fs_load_inode fs_d_obs slot_block_def file_node_def INODES_PER_BLOCK_def)

lemma fs_d1_obs:
  "fst (fs_write empty_block fs_d 0 ten_bytes 10 0) = 10"
  "dk_image (disk fs_d1) 2 = memcpy empty_block 0 ten_bytes 0 10"
  "slot (disk fs_d1) 0 = file_node 10 [2, 0, 0, 0, 0] 0"
  "dk_ok (disk fs_d1)" "dk_blocks (disk fs_d1) = 10"
proof -
  have c: "0 div BLOCK_SIZE < POINTERS_PER_INODE" by (simp add: POINTERS_PER_INODE_def)
  have p: "direct (file_node 0 [2, 0, 0, 0, 0] 0) ! (0 div BLOCK_SIZE) \<noteq> 0"
    by (simp add: file_node_def)
  have fit: "10 \<le> BLOCK_SIZE - 0 mod BLOCK_SIZE" by (simp add: BLOCK_SIZE_def)
  have b: "2 = unat (direct (file_node 0 [2, 0, 0, 0, 0] 0) ! (0 div BLOCK_SIZE))"
    by (simp add: file_node_def)
  have inside: "2 < dk_blocks (disk fs_d)" by (simp add: fs_d_obs)
  have other: "2 \<noteq> slot_block 0" by (simp add: slot_block_def)
  note w = fs_write_block_start [OF fs_d_obs(1) fs_d_load c p fit b inside other,
      of empty_block ten_bytes, folded fs_d1_def]
  show "fst (fs_write empty_block fs_d 0 ten_bytes 10 0) = 10" using w(1) by simp
  show "dk_image (disk fs_d1) 2 = memcpy empty_block 0 ten_bytes 0 10"
    using w(2) by (simp add: fs_d_obs)
  show "slot (disk fs_d1) 0 = file_node 10 [2, 0, 0, 0, 0] 0"
    using w(3) by (simp add: file_node_def)
  show "dk_ok (disk fs_d1)" by (rule w)
  show "dk_blocks (disk fs_d1) = 10" using w(5) by (simp add: fs_d_obs)
qed

lemma fs_d1_load: "fst (fs_load_inode fs_d1 0) = Some (file_node 10 [2, 0, 0, 0, 0] 0)"
  by (simp add: fst_fs_load_inode fs_d1_obs slot_block_def file_node_def INODES_PER_BLOCK_def)

lemma fs_d2_obs:
  "fst (fs_write empty_block fs_d1 0 two_bytes 2 4) = 2"
  "dk_image (disk fs_d2) 2 = memcpy (memcpy empty_block 0 ten_bytes 0 10) 0 two_bytes 0 2"
  "slot (disk fs_d2) 0 = file_node 12 [2, 0, 0, 0, 0] 0"
proof -
  have c: "4 div BLOCK_SIZE < POINTERS_PER_INODE" by (simp add: POINTERS_PER_INODE_def BLOCK_SIZE_def)
  have p: "direct (file_node 10 [2, 0, 0, 0, 0] 0) ! (4 div BLOCK_SIZE) \<noteq> 0"
    by (simp add: file_node_def BLOCK_SIZE_def)
  have fit: "2 \<le> BLOCK_SIZE - 4 mod BLOCK_SIZE" by (simp add: BLOCK_SIZE_def)
  have b: "2 = unat (direct (file_node 10 [2, 0, 0, 0, 0] 0) ! (4 div BLOCK_SIZE))"
    by (simp add: file_node_def BLOCK_SIZE_def)
  have inside: "2 < dk_blocks (disk fs_d1)" by (simp add: fs_d1_obs)
  have other: "2 \<noteq> slot_block 0" by (simp add: slot_block_def)
  note w = fs_write_block_start [OF fs_d1_obs(4) fs_d1_load c p fit b inside other,
      of empty_block two_bytes, folded fs_d2_def]
  show "fst (fs_write empty_block fs_d1 0 two_bytes 2 4) = 2" using w(1) by simp
  show "dk_image (disk fs_d2) 2 = memcpy (memcpy empty_block 0 ten_bytes 0 10) 0 two_bytes 0 2"
    using w(2) by (simp add: fs_d1_obs)
  show "slot (disk fs_d2) 0 = file_node 12 [2, 0, 0, 0, 0] 0"
    using w(3) by (simp add: file_node_def)
qed

lemma upt10: "[0..<10] = [0, 1, 2, 3, 4, 5, 6, 7, 8, 9]"
  by (simp add: upt_conv_Cons)

section \<open>Claim C8\<close>

text \<open>
  Claim C8. The claim: for every inode number at or beyond the capacity
  \<open>inode_blocks * INODES_PER_BLOCK\<close>, load fails and \<^verbatim>\<open>stat\<close> returns the failure
  sentinel, never a size read from outside the inode table. \<^verbatim>\<open>fs_load_inode\<close> has no
  such check: it reads block \<open>number / INODES_PER_BLOCK + 1\<close>, whatever it is, and
  \<^verbatim>\<open>fs_stat\<close> checks nothing more (\<^verbatim>\<open>fs_read\<close> does compare the number to the
  capacity). On device B the capacity is 256, inode number 256 lies in block 3, a data
  block of the file, whose first bytes read as a valid inode of size 7: the load
  succeeds and \<^verbatim>\<open>fs_stat\<close> returns 7.
\<close>

theorem C8_stat_out_of_range:
  "fst (fs_mount empty_block fs_zero (Some dev_b)) = True \<and>
   unat (inode_blocks (meta_data fs_b)) * INODES_PER_BLOCK = 256 \<and>
   slot_block 256 = 3 \<and>
   fst (fs_load_inode fs_b 256) = Some \<lparr>valid = 1, isize = 7, direct = [0, 0, 0, 0, 0], indirect = 0\<rparr> \<and>
   fst (fs_stat fs_b 256) = 7"
proof -
  have ld: "fst (fs_load_inode fs_b 256) =
      Some \<lparr>valid = 1, isize = 7, direct = [0, 0, 0, 0, 0], indirect = 0\<rparr>"
    by (simp add: fst_fs_load_inode fs_b_obs slot_dev_b) (simp add: slot_block_def INODES_PER_BLOCK_def)
  show ?thesis
    using mount_dev_b
    by (simp add: ld fs_stat_eq fs_b_obs inode_blocks_20) (simp add: slot_block_def INODES_PER_BLOCK_def)
qed

section \<open>Claim C3\<close>

text \<open>
  Claim C3. The claim: \<^verbatim>\<open>read\<close> walks the logical blocks from \<open>offset / block_size\<close> on,
  across the direct blocks and into the indirect range, until the length is satisfied,
  the size is exhausted or a zero pointer is met, so that a read spanning several
  blocks copies from every block needed. \<^verbatim>\<open>fs_read\<close> has no loop: it copies from one
  block and returns. On file system C the file has 8192 bytes in two blocks; a read of
  8192 bytes at offset 0 returns 4096, the buffer holds block 2 in its first 4096 bytes
  and is unchanged from byte 4096 on, where the first byte of block 3 (0x42) belongs.
\<close>

theorem C3_read_stops_after_one_block:
  "fst (fs_stat fs_c 0) = 8192 \<and>
   fst (fs_read fs_c 0 (\<lambda>_. 0) 8192 0) = 4096 \<and>
   fst (snd (fs_read fs_c 0 (\<lambda>_. 0) 8192 0)) 4095 = 0x41 \<and>
   fst (snd (fs_read fs_c 0 (\<lambda>_. 0) 8192 0)) 4096 = 0 \<and>
   dk_image (disk fs_c) 3 0 = 0x42"
  by (simp add: fs_c_read fs_c_stat memcpy_def fs_c_obs)

section \<open>Claim C2\<close>

text \<open>
  Claim C2. The claim: a write to an allocated block at a nonzero position inside the
  block changes only the bytes from that position on, for the length of the chunk;
  writing 10 bytes at offset 0 and then 2 bytes at offset 4 leaves the bytes 0 to 3 and
  6 to 9 of the first write and puts the second write at the bytes 4 and 5.
  \<^verbatim>\<open>fs_write\<close> copies the chunk to the start of the staging block
  (\<^verbatim>\<open>memcpy(old_data.data, data + bytes_written, to_write)\<close>), whatever the position. On
  file system D, after the ten bytes \<^verbatim>\<open>ABCDEFGHIJ\<close> at offset 0 and the two bytes
  \<^verbatim>\<open>xy\<close> at offset 4 (both writes return their full length), block 2 begins with
  \<^verbatim>\<open>xyCDEFGHIJ\<close>: the bytes 0 and 1 are overwritten, the bytes 4 and 5 are not.
\<close>

theorem C2_write_ignores_block_offset:
  "fst (fs_write empty_block fs_d 0 ten_bytes 10 0) = 10 \<and>
   map (dk_image (disk fs_d1) 2) [0..<10] = [65, 66, 67, 68, 69, 70, 71, 72, 73, 74] \<and>
   fst (fs_write empty_block fs_d1 0 two_bytes 2 4) = 2 \<and>
   map (dk_image (disk fs_d2) 2) [0..<10] = [120, 121, 67, 68, 69, 70, 71, 72, 73, 74]"
  by (simp add: fs_d1_obs fs_d2_obs upt10 memcpy_def ten_bytes_def two_bytes_def)

section \<open>Claim C6\<close>

lemma create_slots_skip:
  "\<forall>j\<in>set js. valid (block_inodes blk j) \<noteq> 0 \<Longrightarrow> create_slots js i blk d = (None, blk, d)"
  by (induction js) simp_all

lemma create_slots_append:
  "\<forall>j\<in>set pre. valid (block_inodes blk j) \<noteq> 0 \<Longrightarrow>
   create_slots (pre @ js) i blk d = create_slots js i blk d"
  by (induction pre) simp_all

lemma create_slots_hit:
  assumes "dk_ok d" and "i < dk_blocks d" and "valid (block_inodes blk j) = 0"
  shows "create_slots (j # rest) i blk d =
     (Some (int j + (int i - 1) * int INODES_PER_BLOCK), wr32 blk (INODE_BYTES * j) 1,
      snd (disk_write d i (wr32 blk (INODE_BYTES * j) 1)))"
  using assms by (simp add: Let_def case_prod_beta dk_simps split: bool.splits)

lemma create_slots_first:
  assumes ok: "dk_ok d" and i: "i < dk_blocks d" and j: "j < INODES_PER_BLOCK"
    and v: "valid (block_inodes blk j) = 0"
    and pre: "\<forall>j'<j. valid (block_inodes blk j') \<noteq> 0"
  shows "create_slots [0..<INODES_PER_BLOCK] i blk d =
     (Some (int j + (int i - 1) * int INODES_PER_BLOCK), wr32 blk (INODE_BYTES * j) 1,
      snd (disk_write d i (wr32 blk (INODE_BYTES * j) 1)))"
proof -
  have "create_slots [0..<INODES_PER_BLOCK] i blk d =
      create_slots (j # [Suc j..<INODES_PER_BLOCK]) i blk d"
    unfolding upt_split [OF j] using pre by (intro create_slots_append) simp
  also have "\<dots> = (Some (int j + (int i - 1) * int INODES_PER_BLOCK), wr32 blk (INODE_BYTES * j) 1,
      snd (disk_write d i (wr32 blk (INODE_BYTES * j) 1)))"
    using ok i v by (rule create_slots_hit)
  finally show ?thesis .
qed

lemma create_blocks_Cons:
  "create_blocks (b # rest) blk d =
     (case fst (disk_read d b) of
        None \<Rightarrow> create_blocks rest blk (snd (disk_read d b))
      | Some blk1 \<Rightarrow>
          (case fst (create_slots [0..<INODES_PER_BLOCK] b blk1 (snd (disk_read d b))) of
             Some n \<Rightarrow> (n, snd (snd (create_slots [0..<INODES_PER_BLOCK] b blk1 (snd (disk_read d b)))))
           | None \<Rightarrow> create_blocks rest
               (fst (snd (create_slots [0..<INODES_PER_BLOCK] b blk1 (snd (disk_read d b)))))
               (snd (snd (create_slots [0..<INODES_PER_BLOCK] b blk1 (snd (disk_read d b)))))))"
  by (simp add: case_prod_beta split: option.splits)

lemma create_blocks_full:
  assumes "dk_ok d"
    and "\<forall>b\<in>set bs. b < dk_blocks d \<and> (\<forall>j<INODES_PER_BLOCK. valid (block_inodes (dk_image d b) j) \<noteq> 0)"
  shows "fst (create_blocks bs blk d) = - 1 \<and> dk_image (snd (create_blocks bs blk d)) = dk_image d \<and>
     dk_ok (snd (create_blocks bs blk d)) \<and> dk_blocks (snd (create_blocks bs blk d)) = dk_blocks d"
  using assms
proof (induction bs arbitrary: blk d)
  case Nil
  then show ?case by simp
next
  case (Cons b rest)
  let ?d1 = "snd (disk_read d b)"
  from Cons.prems have b: "b < dk_blocks d"
    and full: "\<forall>j\<in>set [0..<INODES_PER_BLOCK]. valid (block_inodes (dk_image d b) j) \<noteq> 0"
    by simp_all
  have rd: "fst (disk_read d b) = Some (dk_image d b)"
    using Cons.prems(1) b by (simp add: dk_simps)
  have cs: "create_slots [0..<INODES_PER_BLOCK] b (dk_image d b) ?d1 = (None, dk_image d b, ?d1)"
    using full by (rule create_slots_skip)
  have ih: "fst (create_blocks rest (dk_image d b) ?d1) = - 1 \<and>
      dk_image (snd (create_blocks rest (dk_image d b) ?d1)) = dk_image ?d1 \<and>
      dk_ok (snd (create_blocks rest (dk_image d b) ?d1)) \<and>
      dk_blocks (snd (create_blocks rest (dk_image d b) ?d1)) = dk_blocks ?d1"
    by (rule Cons.IH) (use Cons.prems in \<open>simp_all add: dk_simps\<close>)
  show ?case
    using ih by (simp del: create_blocks.simps add: create_blocks_Cons rd cs dk_simps)
qed

lemma create_blocks_first:
  assumes "dk_ok d"
    and "\<forall>b\<in>set pre. b < dk_blocks d \<and> (\<forall>j<INODES_PER_BLOCK. valid (block_inodes (dk_image d b) j) \<noteq> 0)"
    and "b < dk_blocks d" and "j < INODES_PER_BLOCK"
    and "valid (block_inodes (dk_image d b) j) = 0"
    and "\<forall>j'<j. valid (block_inodes (dk_image d b) j') \<noteq> 0"
  shows "fst (create_blocks (pre @ b # post) blk d) = int j + (int b - 1) * int INODES_PER_BLOCK \<and>
     dk_image (snd (create_blocks (pre @ b # post) blk d)) =
       (dk_image d)(b := wr32 (dk_image d b) (INODE_BYTES * j) 1) \<and>
     dk_ok (snd (create_blocks (pre @ b # post) blk d)) \<and>
     dk_blocks (snd (create_blocks (pre @ b # post) blk d)) = dk_blocks d"
  using assms
proof (induction pre arbitrary: blk d)
  case Nil
  let ?d1 = "snd (disk_read d b)"
  have rd: "fst (disk_read d b) = Some (dk_image d b)"
    using Nil.prems(1,3) by (simp add: dk_simps)
  have cs: "create_slots [0..<INODES_PER_BLOCK] b (dk_image d b) ?d1 =
     (Some (int j + (int b - 1) * int INODES_PER_BLOCK), wr32 (dk_image d b) (INODE_BYTES * j) 1,
      snd (disk_write ?d1 b (wr32 (dk_image d b) (INODE_BYTES * j) 1)))"
    by (rule create_slots_first) (use Nil.prems in \<open>simp_all add: dk_simps\<close>)
  show ?case
    using Nil.prems(1,3)
    by (simp del: create_blocks.simps add: create_blocks_Cons rd cs dk_simps)
next
  case (Cons a pre)
  let ?d1 = "snd (disk_read d a)"
  from Cons.prems have a: "a < dk_blocks d"
    and full: "\<forall>j\<in>set [0..<INODES_PER_BLOCK]. valid (block_inodes (dk_image d a) j) \<noteq> 0"
    by simp_all
  have rd: "fst (disk_read d a) = Some (dk_image d a)"
    using Cons.prems(1) a by (simp add: dk_simps)
  have cs: "create_slots [0..<INODES_PER_BLOCK] a (dk_image d a) ?d1 = (None, dk_image d a, ?d1)"
    using full by (rule create_slots_skip)
  have ih: "fst (create_blocks (pre @ b # post) (dk_image d a) ?d1) =
        int j + (int b - 1) * int INODES_PER_BLOCK \<and>
      dk_image (snd (create_blocks (pre @ b # post) (dk_image d a) ?d1)) =
        (dk_image ?d1)(b := wr32 (dk_image ?d1 b) (INODE_BYTES * j) 1) \<and>
      dk_ok (snd (create_blocks (pre @ b # post) (dk_image d a) ?d1)) \<and>
      dk_blocks (snd (create_blocks (pre @ b # post) (dk_image d a) ?d1)) = dk_blocks ?d1"
    by (rule Cons.IH) (use Cons.prems in \<open>simp_all add: dk_simps\<close>)
  show ?case
    using ih by (simp del: create_blocks.simps add: create_blocks_Cons rd cs dk_simps)
qed

lemma upt_from_split: "a \<le> k \<Longrightarrow> k < n \<Longrightarrow> [a..<n] = [a..<k] @ k # [Suc k..<n]"
proof -
  assume a: "a \<le> k" and k: "k < n"
  have "[a..<n] = [a..<k] @ [k..<n]"
    using a k by (metis le_Suc_ex less_imp_le_nat upt_add_eq_append)
  also have "[k..<n] = k # [Suc k..<n]" using k by (simp add: upt_conv_Cons)
  finally show ?thesis .
qed

lemma slot_at:
  "j < INODES_PER_BLOCK \<Longrightarrow> 0 < b \<Longrightarrow>
   slot dk ((b - 1) * INODES_PER_BLOCK + j) = block_inodes (dk_image dk b) j"
  by (simp add: slot_def slot_block_def slot_index_def)

lemma slot_number: "(slot_block n - 1) * INODES_PER_BLOCK + slot_index n = n"
  by (simp add: slot_block_def slot_index_def)

lemma fs_create_first:
  assumes ok: "dk_ok (disk fs)"
    and tb: "unat (inode_blocks (meta_data fs)) < dk_blocks (disk fs)"
    and n: "n < unat (inode_blocks (meta_data fs)) * INODES_PER_BLOCK"
    and v: "valid (slot (disk fs) n) = 0"
    and first: "\<forall>m<n. valid (slot (disk fs) m) \<noteq> 0"
  shows "fst (fs_create fs) = int n"
    and "dk_image (disk (snd (fs_create fs))) =
       (dk_image (disk fs))(slot_block n :=
          wr32 (dk_image (disk fs) (slot_block n)) (INODE_BYTES * slot_index n) 1)"
    and "dk_ok (disk (snd (fs_create fs)))"
    and "dk_blocks (disk (snd (fs_create fs))) = dk_blocks (disk fs)"
proof -
  define b where "b = slot_block n"
  define j where "j = slot_index n"
  define ib where "ib = unat (inode_blocks (meta_data fs))"
  have K: "0 < INODES_PER_BLOCK" by (simp add: INODES_PER_BLOCK_def)
  have b1: "1 \<le> b" by (simp add: b_def slot_block_def)
  have "n div INODES_PER_BLOCK < ib"
    using n K unfolding ib_def by (simp add: less_mult_imp_div_less)
  then have bi: "b < ib + 1" by (simp add: b_def slot_block_def)
  have jK: "j < INODES_PER_BLOCK" using K by (simp add: j_def slot_index_def)
  have nb: "(b - 1) * INODES_PER_BLOCK + j = n"
    unfolding b_def j_def by (rule slot_number)
  have split: "[1..<ib + 1] = [1..<b] @ b # [Suc b..<ib + 1]"
    using b1 bi by (rule upt_from_split)
  have pre: "\<forall>a\<in>set [1..<b]. a < dk_blocks (disk fs) \<and>
      (\<forall>j'<INODES_PER_BLOCK. valid (block_inodes (dk_image (disk fs) a) j') \<noteq> 0)"
  proof (intro ballI conjI allI impI)
    fix a assume a: "a \<in> set [1..<b]"
    with bi tb show "a < dk_blocks (disk fs)" by (simp add: ib_def)
    fix j' assume j': "j' < INODES_PER_BLOCK"
    from a have "a - 1 < b - 1" "0 < a" by auto
    then have "(a - 1) * INODES_PER_BLOCK + j' < (b - 1) * INODES_PER_BLOCK"
      using j' by (metis Suc_leI add.commute add_mult_distrib less_le_trans mult_le_mono1
          nat_add_left_cancel_less nat_mult_1 plus_1_eq_Suc)
    then have "(a - 1) * INODES_PER_BLOCK + j' < n" using nb by simp
    with first have "valid (slot (disk fs) ((a - 1) * INODES_PER_BLOCK + j')) \<noteq> 0" by simp
    then show "valid (block_inodes (dk_image (disk fs) a) j') \<noteq> 0"
      using j' \<open>0 < a\<close> slot_at [of j' a "disk fs"] by simp
  qed
  have bb: "b < dk_blocks (disk fs)" using bi tb by (simp add: ib_def)
  have vb: "valid (block_inodes (dk_image (disk fs) b) j) = 0"
    using v by (simp add: slot_def b_def j_def)
  have before: "\<forall>j'<j. valid (block_inodes (dk_image (disk fs) b) j') \<noteq> 0"
  proof (intro allI impI)
    fix j' assume j': "j' < j"
    then have "(b - 1) * INODES_PER_BLOCK + j' < n" using nb by simp
    with first have "valid (slot (disk fs) ((b - 1) * INODES_PER_BLOCK + j')) \<noteq> 0" by simp
    then show "valid (block_inodes (dk_image (disk fs) b) j') \<noteq> 0"
      using j' jK b1 slot_at [of j' b "disk fs"] by simp
  qed
  note r = create_blocks_first [OF ok pre bb jK vb before, of "[Suc b..<ib + 1]" empty_block,
      folded split]
  have "int j + (int b - 1) * int INODES_PER_BLOCK = int n"
    using nb b1 by (metis add.commute of_nat_1 of_nat_add of_nat_diff of_nat_mult)
  with r show "fst (fs_create fs) = int n"
    by (simp add: fs_create_def case_prod_beta ib_def)
  from r show "dk_image (disk (snd (fs_create fs))) =
       (dk_image (disk fs))(slot_block n :=
          wr32 (dk_image (disk fs) (slot_block n)) (INODE_BYTES * slot_index n) 1)"
    by (simp add: fs_create_def case_prod_beta ib_def b_def j_def)
  from r show "dk_ok (disk (snd (fs_create fs)))"
    by (simp add: fs_create_def case_prod_beta ib_def)
  from r show "dk_blocks (disk (snd (fs_create fs))) = dk_blocks (disk fs)"
    by (simp add: fs_create_def case_prod_beta ib_def)
qed

lemma fs_create_full:
  assumes ok: "dk_ok (disk fs)"
    and tb: "unat (inode_blocks (meta_data fs)) < dk_blocks (disk fs)"
    and full: "\<forall>m<unat (inode_blocks (meta_data fs)) * INODES_PER_BLOCK. valid (slot (disk fs) m) \<noteq> 0"
  shows "fst (fs_create fs) = - 1"
    and "dk_image (disk (snd (fs_create fs))) = dk_image (disk fs)"
proof -
  define ib where "ib = unat (inode_blocks (meta_data fs))"
  have all: "\<forall>a\<in>set [1..<ib + 1]. a < dk_blocks (disk fs) \<and>
      (\<forall>j'<INODES_PER_BLOCK. valid (block_inodes (dk_image (disk fs) a) j') \<noteq> 0)"
  proof (intro ballI conjI allI impI)
    fix a assume "a \<in> set [1..<ib + 1]"
    then have a: "0 < a" "a \<le> ib" by (auto simp del: upt_Suc)
    with tb show "a < dk_blocks (disk fs)" by (simp add: ib_def)
    fix j' assume j': "j' < INODES_PER_BLOCK"
    from a have "a - 1 < ib" "0 < a" by auto
    then have "(a - 1) * INODES_PER_BLOCK + j' < ib * INODES_PER_BLOCK"
      using j' by (metis Suc_leI add.commute add_mult_distrib less_le_trans mult_le_mono1
          nat_add_left_cancel_less nat_mult_1 plus_1_eq_Suc)
    with full have "valid (slot (disk fs) ((a - 1) * INODES_PER_BLOCK + j')) \<noteq> 0"
      by (simp add: ib_def)
    then show "valid (block_inodes (dk_image (disk fs) a) j') \<noteq> 0"
      using j' \<open>0 < a\<close> slot_at [of j' a "disk fs"] by simp
  qed
  note r = create_blocks_full [OF ok all, of empty_block]
  from r show "fst (fs_create fs) = - 1"
    by (simp add: fs_create_def case_prod_beta ib_def)
  from r show "dk_image (disk (snd (fs_create fs))) = dk_image (disk fs)"
    by (simp add: fs_create_def case_prod_beta ib_def)
qed

lemma fs_create_slots:
  assumes ok: "dk_ok (disk fs)"
    and tb: "unat (inode_blocks (meta_data fs)) < dk_blocks (disk fs)"
    and n: "n < unat (inode_blocks (meta_data fs)) * INODES_PER_BLOCK"
    and v: "valid (slot (disk fs) n) = 0"
    and first: "\<forall>m<n. valid (slot (disk fs) m) \<noteq> 0"
  shows "slot (disk (snd (fs_create fs))) m =
     (if m = n then (slot (disk fs) n)\<lparr>valid := 1\<rparr> else slot (disk fs) m)"
proof -
  note c = fs_create_first [OF ok tb n v first]
  show ?thesis
  proof (cases "slot_block m = slot_block n")
    case False
    then have "m \<noteq> n" by auto
    with False show ?thesis by (simp add: slot_def c(2))
  next
    case True
    have img: "dk_image (disk (snd (fs_create fs))) (slot_block m) =
        wr32 (dk_image (disk fs) (slot_block n)) (INODE_BYTES * slot_index n) 1"
      unfolding c(2) using True by simp
    show ?thesis
    proof (cases "m = n")
      case True
      then show ?thesis
        unfolding slot_def img by (simp add: block_inodes_wr32_valid)
    next
      case False
      have "slot_index m \<noteq> slot_index n"
      proof
        assume "slot_index m = slot_index n"
        with True slot_number [of m] slot_number [of n] have "m = n" by simp
        with False show False ..
      qed
      with False True show ?thesis
        unfolding slot_def img by (simp add: block_inodes_wr32_valid)
    qed
  qed
qed

lemma fs_e_obs:
  "dk_ok (disk (fs_e []))" "dk_blocks (disk (fs_e fl)) = 10"
  "unat (inode_blocks (meta_data (fs_e fl))) = 1"
  "slot (disk (fs_e fl)) m = iblank"
  by (simp_all add: fs_e_def mounted_def dk_ok_def dk_blocks_def block_super_sb_block slot_def
      dk_image_def slot_block_def block_inodes_empty)

lemma fs_f_obs:
  "dk_ok (disk fs_f)" "dk_blocks (disk fs_f) = 10"
  "unat (inode_blocks (meta_data fs_f)) = 1"
  "m < INODES_PER_BLOCK \<Longrightarrow> valid (slot (disk fs_f) m) = 0x01010101"
  by (simp_all add: fs_f_def mounted_def dk_ok_def dk_blocks_def block_super_sb_block slot_def
      dk_image_def slot_block_def block_inodes_def rd32_def)

lemma upt_inodes2: "[0..<INODES_PER_BLOCK] = 0 # 1 # [2..<INODES_PER_BLOCK]"
  by (simp add: INODES_PER_BLOCK_def upt_conv_Cons)

text \<open>
  Claim C6, as amended. On a device without faults that holds the whole inode table:
  when \<open>n\<close> is the first inode number whose slot has the validity flag unset,
  \<^verbatim>\<open>fs_create\<close> returns \<open>n\<close>; on the device the slot \<open>n\<close> is what it was with the
  flag set to 1 (size and pointers as they were), every other slot is unchanged, and
  \<^verbatim>\<open>fs_stat\<close> on \<open>n\<close> returns the size that the slot held. When every slot of the
  table is valid, \<^verbatim>\<open>fs_create\<close> returns \<open>- 1\<close> and leaves the device as it was.
\<close>

theorem C6_create:
  "(dk_ok (disk fs) \<and> unat (inode_blocks (meta_data fs)) < dk_blocks (disk fs) \<and>
    n < unat (inode_blocks (meta_data fs)) * INODES_PER_BLOCK \<and>
    valid (slot (disk fs) n) = 0 \<and> (\<forall>m<n. valid (slot (disk fs) m) \<noteq> 0) \<longrightarrow>
      fst (fs_create fs) = int n \<and>
      slot (disk (snd (fs_create fs))) n = (slot (disk fs) n)\<lparr>valid := 1\<rparr> \<and>
      (\<forall>m. m \<noteq> n \<longrightarrow> slot (disk (snd (fs_create fs))) m = slot (disk fs) m) \<and>
      fst (fs_stat (snd (fs_create fs)) n) = uint (isize (slot (disk fs) n))) \<and>
   (dk_ok (disk fs) \<and> unat (inode_blocks (meta_data fs)) < dk_blocks (disk fs) \<and>
    (\<forall>m<unat (inode_blocks (meta_data fs)) * INODES_PER_BLOCK. valid (slot (disk fs) m) \<noteq> 0) \<longrightarrow>
      fst (fs_create fs) = - 1 \<and>
      dk_image (disk (snd (fs_create fs))) = dk_image (disk fs))"
proof (intro conjI impI allI)
  assume a: "dk_ok (disk fs) \<and> unat (inode_blocks (meta_data fs)) < dk_blocks (disk fs) \<and>
    n < unat (inode_blocks (meta_data fs)) * INODES_PER_BLOCK \<and>
    valid (slot (disk fs) n) = 0 \<and> (\<forall>m<n. valid (slot (disk fs) m) \<noteq> 0)"
  then have ok: "dk_ok (disk fs)"
    and tb: "unat (inode_blocks (meta_data fs)) < dk_blocks (disk fs)"
    and n: "n < unat (inode_blocks (meta_data fs)) * INODES_PER_BLOCK"
    and v: "valid (slot (disk fs) n) = 0"
    and first: "\<forall>m<n. valid (slot (disk fs) m) \<noteq> 0"
    by simp_all
  note c = fs_create_first [OF ok tb n v first]
  note s = fs_create_slots [OF ok tb n v first]
  show "fst (fs_create fs) = int n" by (rule c)
  show sn: "slot (disk (snd (fs_create fs))) n = (slot (disk fs) n)\<lparr>valid := 1\<rparr>"
    by (simp add: s)
  show "slot (disk (snd (fs_create fs))) m = slot (disk fs) m" if "m \<noteq> n" for m
    using that by (simp add: s)
  have K: "0 < INODES_PER_BLOCK" by (simp add: INODES_PER_BLOCK_def)
  have "n div INODES_PER_BLOCK < unat (inode_blocks (meta_data fs))"
    using n K by (simp add: less_mult_imp_div_less)
  with tb have "slot_block n < dk_blocks (disk fs)" by (simp add: slot_block_def)
  then show "fst (fs_stat (snd (fs_create fs)) n) = uint (isize (slot (disk fs) n))"
    by (simp add: fs_stat_eq fst_fs_load_inode c sn)
next
  assume a: "dk_ok (disk fs) \<and> unat (inode_blocks (meta_data fs)) < dk_blocks (disk fs) \<and>
    (\<forall>m<unat (inode_blocks (meta_data fs)) * INODES_PER_BLOCK. valid (slot (disk fs) m) \<noteq> 0)"
  then have ok: "dk_ok (disk fs)"
    and tb: "unat (inode_blocks (meta_data fs)) < dk_blocks (disk fs)"
    and full: "\<forall>m<unat (inode_blocks (meta_data fs)) * INODES_PER_BLOCK. valid (slot (disk fs) m) \<noteq> 0"
    by simp_all
  show "fst (fs_create fs) = - 1" using ok tb full by (rule fs_create_full)
  show "dk_image (disk (snd (fs_create fs))) = dk_image (disk fs)"
    using ok tb full by (rule fs_create_full)
qed

theorem C6_create_witness:
  "fst (fs_create (fs_e [])) = 0 \<and>
   slot (disk (snd (fs_create (fs_e [])))) 0 = iblank\<lparr>valid := 1\<rparr> \<and>
   slot (disk (snd (fs_create (fs_e [])))) 1 = iblank \<and>
   fst (fs_stat (snd (fs_create (fs_e []))) 0) = 0 \<and>
   fst (fs_create fs_f) = - 1 \<and>
   dk_image (disk (snd (fs_create fs_f))) = dk_image (disk fs_f)"
proof -
  have "m < INODES_PER_BLOCK \<Longrightarrow> valid (slot (disk fs_f) m) \<noteq> 0" for m
    by (simp add: fs_f_obs)
  then show ?thesis
    using C6_create [of "fs_e []" 0] C6_create [of fs_f]
    by (simp add: fs_e_obs fs_f_obs INODES_PER_BLOCK_def) (simp add: iblank_def)
qed

text \<open>
  The claim as it stands says that the failure sentinel is returned on an I/O failure,
  and that the claimed slot has size 0. On file system E with the second transfer
  failing, the write of slot 0 fails and the scan goes on: \<^verbatim>\<open>fs_create\<close> returns 1,
  and the block it writes for slot 1 has the flag of slot 0 set as well. On file system
  S, \<^verbatim>\<open>fs_create\<close> returns 0 and \<^verbatim>\<open>fs_stat\<close> on 0 returns 7.
\<close>

theorem C6_create_counterexample:
  "fst (fs_create (fs_e [False, True])) = 1 \<and>
   valid (slot (disk (snd (fs_create (fs_e [False, True])))) 0) = 1 \<and>
   valid (slot (disk (snd (fs_create (fs_e [False, True])))) 1) = 1 \<and>
   valid (slot (disk fs_s) 0) = 0 \<and>
   fst (fs_create fs_s) = 0 \<and>
   fst (fs_stat (snd (fs_create fs_s)) 0) = 7"
proof -
  define d0 where "d0 = device 10 (\<lambda>_. empty_block) [False, True]"
  define d1 where "d1 = d0\<lparr>faults := [True], reads := 1\<rparr>"
  define d2 where "d2 = d0\<lparr>faults := [], reads := 1\<rparr>"
  define b1 where "b1 = wr32 empty_block 0 1"
  define b2 where "b2 = wr32 b1 INODE_BYTES 1"
  define d3 where "d3 = d2\<lparr>writes := 1, image := (image d2)(1 := b2)\<rparr>"
  have r: "disk_read (Some d0) (Suc 0) = (Some empty_block, Some d1)"
    by (simp add: disk_read_def disk_sanity_check_def transfer_fails_def after_transfer_def
        d0_def d1_def device_def)
  have w1: "disk_write (Some d1) (Suc 0) b1 = (False, Some d2)"
    by (simp add: disk_write_def disk_sanity_check_def transfer_fails_def after_transfer_def
        d0_def d1_def d2_def device_def)
  have w2: "disk_write (Some d2) (Suc 0) b2 = (True, Some d3)"
    by (simp add: disk_write_def disk_sanity_check_def transfer_fails_def after_transfer_def
        d0_def d2_def d3_def device_def)
  have v0: "valid (block_inodes empty_block 0) = 0" by (simp add: block_inodes_empty)
  have f1: "block_inodes b1 j' = (if j' = 0 then iblank\<lparr>valid := 1\<rparr> else iblank)" for j'
    using block_inodes_wr32_valid [of empty_block 0 1 j'] by (simp add: b1_def block_inodes_empty)
  have f2: "block_inodes b2 j' = (if j' = 1 then iblank\<lparr>valid := 1\<rparr> else block_inodes b1 j')" for j'
    using block_inodes_wr32_valid [of b1 1 1 j'] by (simp add: b2_def f1)
  have v1: "valid (block_inodes b1 (Suc 0)) = 0"
    by (simp add: f1)
  have cs: "create_slots [0..<INODES_PER_BLOCK] (Suc 0) empty_block (Some d1) = (Some 1, b2, Some d3)"
    unfolding upt_inodes2
    by (simp add: v0 v1 b1_def [symmetric] w1 b2_def [symmetric] w2 Let_def)
  have e: "fs_create (fs_e [False, True]) = (1, (fs_e [False, True])\<lparr>disk := Some d3\<rparr>)"
    by (simp add: fs_create_def fs_e_obs)
      (simp add: fs_e_def mounted_def d0_def [symmetric] r cs)
  have i3: "dk_image (Some d3) (Suc 0) = b2"
    by (simp add: dk_image_def d3_def)
  have s0: "valid (slot (Some d3) 0) = 1" "valid (slot (Some d3) (Suc 0)) = 1"
    by (simp_all add: slot_def slot_block_def slot_index_def INODES_PER_BLOCK_def i3 f2 f1)
  have so: "dk_ok (disk fs_s)" "dk_blocks (disk fs_s) = 10"
    "unat (inode_blocks (meta_data fs_s)) = 1"
    "slot (disk fs_s) 0 = iblank\<lparr>isize := 7\<rparr>"
       apply (simp_all add: fs_s_def mounted_def dk_ok_def dk_blocks_def block_super_sb_block slot_def
        dk_image_def slot_block_def slot_index_def)
    apply (rule Inode.equality)
        apply (simp_all add: block_inodes_def INODE_BYTES_def iblank_def POINTERS_PER_INODE_def upt5
        replicate5)
    done
  have h: "unat (inode_blocks (meta_data fs_s)) < dk_blocks (disk fs_s)"
    "0 < unat (inode_blocks (meta_data fs_s)) * INODES_PER_BLOCK"
    "valid (slot (disk fs_s) 0) = 0" "\<forall>m<0. valid (slot (disk fs_s) m) \<noteq> 0"
    by (simp_all add: so INODES_PER_BLOCK_def)
  note c = fs_create_first [OF so(1) h] fs_create_slots [OF so(1) h, of 0]
  have "fst (fs_stat (snd (fs_create fs_s)) 0) = 7"
    by (simp add: fs_stat_eq fst_fs_load_inode c slot_block_def so)
  with c(1) show ?thesis
    by (simp add: e s0 so)
qed

section \<open>The count that a write returns\<close>

subsection \<open>The walk in closed form\<close>

lemma run_closed:
  "bp < BLOCK_SIZE \<Longrightarrow> bw \<le> len \<Longrightarrow>
   run steps F bp len bw =
     min len (bw + (if served steps F = 0 then 0
                    else BLOCK_SIZE - bp + (served steps F - 1) * BLOCK_SIZE))"
proof (induction steps arbitrary: F bp bw)
  case Nil
  then show ?case by simp
next
  case (Cons s rest)
  obtain need is_data where s: "s = (need, is_data)" by (cases s)
  define F' where "F' = (if need then F - 1 else F)"
  show ?case
  proof (cases "need \<and> F = 0")
    case True
    with Cons.prems show ?thesis by (simp add: s)
  next
    case stop: False
    show ?thesis
    proof (cases is_data)
      case False
      have r: "run (s # rest) F bp len bw = run rest F' bp len bw"
        and sv: "served (s # rest) F = served rest F'"
        using stop False by (auto simp add: s F'_def)
      show ?thesis
        unfolding r sv using Cons.prems by (rule Cons.IH)
    next
      case True
      define tw where "tw = write_count bp len bw"
      have B: "0 < BLOCK_SIZE" by (simp add: BLOCK_SIZE_def)
      have sv: "served (s # rest) F = Suc (served rest F')"
        using stop True by (auto simp add: s F'_def)
      show ?thesis
      proof (cases "bw + tw = len")
        case fin: True
        have r: "run (s # rest) F bp len bw = len"
          using stop True fin by (auto simp add: s tw_def)
        have "tw \<le> BLOCK_SIZE - bp" unfolding tw_def write_count_def by simp
        with fin have "len \<le> bw + (BLOCK_SIZE - bp + served rest F' * BLOCK_SIZE)" by simp
        then show ?thesis
          unfolding r sv by simp
      next
        case more: False
        have r: "run (s # rest) F bp len bw = run rest F' 0 len (bw + tw)"
          using stop True more by (auto simp add: s tw_def F'_def)
        have le: "bw + tw \<le> len" unfolding tw_def using Cons.prems(2) by (rule write_count_le)
        have tw: "tw = BLOCK_SIZE - bp"
          using more le unfolding tw_def write_count_def by (simp split: if_splits)
        have ih: "run rest F' 0 len (bw + tw) =
            min len (bw + tw + (if served rest F' = 0 then 0
                    else BLOCK_SIZE - 0 + (served rest F' - 1) * BLOCK_SIZE))"
          using B le by (rule Cons.IH)
        have "(if served rest F' = 0 then 0 else BLOCK_SIZE - 0 + (served rest F' - 1) * BLOCK_SIZE)
            = served rest F' * BLOCK_SIZE"
          by (cases "served rest F'") simp_all
        with ih show ?thesis
          unfolding r sv by (simp add: tw add.assoc)
      qed
    qed
  qed
qed

lemma run_written:
  "run (write_steps node ind (off div BLOCK_SIZE)) F (off mod BLOCK_SIZE) len 0 =
     written node ind F len off"
  by (simp add: run_closed written_def span_def BLOCK_SIZE_def)

subsection \<open>Taking a free block\<close>

lemma free_count_zero: "free_count fs = 0 \<Longrightarrow> fs_find_free fs = (0, fs)"
  by (rule fs_find_free_none) (auto simp add: free_count_def filter_empty_conv)

lemma filter_clear:
  assumes "k \<in> set xs" and "distinct xs" and "P k"
  shows "length (filter (P(k := False)) xs) = length (filter P xs) - 1"
proof -
  have "{x \<in> set xs. (P(k := False)) x} = {x \<in> set xs. P x} - {k}" by auto
  moreover have "k \<in> {x \<in> set xs. P x}" using assms by simp
  ultimately have "card {x \<in> set xs. (P(k := False)) x} = card {x \<in> set xs. P x} - 1"
    by simp
  then show ?thesis
    using assms(2) by (simp add: distinct_length_filter Int_def conj_commute)
qed

lemma free_count_take:
  assumes r: "ready fs" and f: "0 < free_count fs"
  shows "\<exists>k. fst (fs_find_free fs) = int k \<and> took fs k (snd (fs_find_free fs))"
proof -
  let ?n = "unat (sb_blocks (meta_data fs))"
  from f have "\<exists>i<?n. bitmap_get fs i"
    by (auto simp add: free_count_def filter_empty_conv)
  from ex_first_free [OF this] obtain k where
    k: "k < ?n" "bitmap_get fs k" "\<forall>i<k. \<not> bitmap_get fs i" by blast
  from r have ok: "dk_ok (disk fs)" and z: "\<not> bitmap_get fs 0" and n: "?n \<le> dk_blocks (disk fs)"
    by (simp_all add: ready_def)
  from k(2) z have k0: "0 < k" by (cases "k = 0") simp_all
  have w: "fst (disk_write (disk fs) k empty_block)"
    using ok k(1) n by (simp add: dk_simps)
  have fb: "free_blocks fs \<noteq> None" using k(2) by (cases "free_blocks fs") (simp_all add: bitmap_get_def)
  have res: "fs_find_free fs =
      (int k, (bitmap_set fs k False)\<lparr>disk := snd (disk_write (disk fs) k empty_block)\<rparr>)"
    using fs_find_free_first [OF k] w by simp
  have bm: "bitmap_get (snd (fs_find_free fs)) i = (i \<noteq> k \<and> bitmap_get fs i)" for i
    using fb by (auto simp add: res bitmap_get_bitmap_set)
  have "bitmap_get (snd (fs_find_free fs)) = (bitmap_get fs)(k := False)"
    by (rule ext) (simp add: bm)
  then have fc: "free_count (snd (fs_find_free fs)) = free_count fs - 1"
    using k(1,2) by (simp add: free_count_def res filter_clear)
  have rd: "ready (snd (fs_find_free fs))"
    using ok z n by (simp add: ready_def bm) (simp add: res dk_simps)
  have img: "dk_image (disk (snd (fs_find_free fs))) = (dk_image (disk fs))(k := empty_block)"
    using w by (simp add: res dk_simps)
  have "took fs k (snd (fs_find_free fs))"
    unfolding took_def using k0 k(1,2) fc rd img bm by (simp add: res dk_simps)
  then show ?thesis
    by (intro exI [of _ k]) (simp add: res)
qed

lemma unat_below: "k < unat (w :: uint32) \<Longrightarrow> unat (word_of_nat k :: uint32) = k"
proof -
  assume "k < unat w"
  moreover have "unat w < 2 ^ 32" using unsigned_less [of w] by simp
  ultimately have "k < 2 ^ 32" by simp
  then show ?thesis by (simp add: unsigned_of_nat take_bit_nat_eq_self)
qed

lemma ready_write_block:
  "ready fs \<Longrightarrow> ready (write_block uninit fs p data bw tw)"
  by (simp add: ready_def write_block_frame)

lemma free_count_write_block:
  "free_count (write_block uninit fs p data bw tw) = free_count fs"
proof -
  have "bitmap_get (write_block uninit fs p data bw tw) = bitmap_get fs"
    by (rule ext) (simp add: write_block_frame)
  then show ?thesis by (simp add: free_count_def write_block_frame)
qed

lemma write_block_other:
  "dk_ok (disk fs) \<Longrightarrow> q \<noteq> p \<Longrightarrow>
   dk_image (disk (write_block uninit fs p data bw tw)) q = dk_image (disk fs) q"
  by (simp add: write_block_image)

lemma took_other:
  "took fs k fs1 \<Longrightarrow> \<not> bitmap_get fs q \<Longrightarrow>
     dk_image (disk fs1) q = dk_image (disk fs) q \<and> \<not> bitmap_get fs1 q \<and> q \<noteq> k"
  by (auto simp add: took_def)

lemma alloc_direct_none: "direct node ! i \<noteq> 0 \<Longrightarrow> alloc_direct fs node i = (False, fs, node)"
  by (simp add: alloc_direct_def)

lemma alloc_direct_out:
  "direct node ! i = 0 \<Longrightarrow> free_count fs = 0 \<Longrightarrow> alloc_direct fs node i = (True, fs, node)"
  by (simp add: alloc_direct_def free_count_zero)

lemma alloc_direct_take:
  assumes r: "ready fs" and z: "direct node ! i = 0" and f: "0 < free_count fs"
  shows "\<exists>k fs1. took fs k fs1 \<and>
     alloc_direct fs node i = (False, fs1, node\<lparr>direct := (direct node)[i := word_of_nat k]\<rparr>)"
proof -
  from free_count_take [OF r f] obtain k where
    k: "fst (fs_find_free fs) = int k" "took fs k (snd (fs_find_free fs))" by blast
  from k(2) have "0 < k" by (simp add: took_def)
  with z k(1) have "alloc_direct fs node i =
      (False, snd (fs_find_free fs), node\<lparr>direct := (direct node)[i := word_of_nat k]\<rparr>)"
    by (simp add: alloc_direct_def case_prod_beta)
  with k(2) show ?thesis by blast
qed

lemma carried_refl: "ready fs \<Longrightarrow> \<not> bitmap_get fs q \<Longrightarrow> carried fs fs q"
  by (simp add: carried_def)

lemma carried_trans: "carried fs fs1 q \<Longrightarrow> carried fs1 fs2 q \<Longrightarrow> carried fs fs2 q"
  by (simp add: carried_def)

lemma carried_took: "took fs k fs1 \<Longrightarrow> \<not> bitmap_get fs q \<Longrightarrow> carried fs fs1 q"
  by (auto simp add: carried_def took_def)

lemma carried_write_block:
  "ready fs \<Longrightarrow> \<not> bitmap_get fs q \<Longrightarrow> q \<noteq> p \<Longrightarrow>
   carried fs (write_block uninit fs p data bw tw) q"
  by (simp add: carried_def ready_write_block write_block_frame write_block_other ready_def)

lemma write_direct_stop:
  "alloc_direct fs node i = (True, fs1, node1) \<Longrightarrow>
   write_direct (i # rest) uninit data len fs node bp bw = (True, fs1, node1, bp, bw)"
  by simp

lemma write_direct_go:
  "alloc_direct fs node i = (False, fs1, node1) \<Longrightarrow>
   write_direct (i # rest) uninit data len fs node bp bw =
     (if bw + write_count bp len bw = len
      then (True, write_block uninit fs1 (unat (direct node1 ! i)) data bw (write_count bp len bw),
            node1, bp, bw + write_count bp len bw)
      else write_direct rest uninit data len
             (write_block uninit fs1 (unat (direct node1 ! i)) data bw (write_count bp len bw))
             node1 0 (bw + write_count bp len bw))"
  by (simp add: Let_def)

lemma direct_refs_update:
  assumes "q \<notin> direct_refs node" and "q \<noteq> unat (w :: uint32)"
  shows "q \<notin> direct_refs (node\<lparr>direct := (direct node)[i := w]\<rparr>)"
proof
  assume "q \<in> direct_refs (node\<lparr>direct := (direct node)[i := w]\<rparr>)"
  then obtain j where j: "j < POINTERS_PER_INODE" "(direct node)[i := w] ! j \<noteq> 0"
    "q = unat ((direct node)[i := w] ! j)"
    by (auto simp add: direct_refs_def)
  show False
  proof (cases "j = i \<and> i < length (direct node)")
    case True
    with j assms(2) show False by simp
  next
    case False
    then have "(direct node)[i := w] ! j = direct node ! j"
      by (cases "i < length (direct node)") (auto simp add: not_less list_update_beyond)
    with j assms(1) show False by (auto simp add: direct_refs_def)
  qed
qed

lemma ran_next:
  assumes "ran fsa nodea q len stepsa Fa bpa bwa R"
    and "carried fs fsa q"
    and "indirect nodea = indirect node" "valid nodea = valid node" "isize nodea = isize node"
    and "\<And>more. run (steps @ more) F bp len bw = run (stepsa @ more) Fa bpa len bwa"
  shows "ran fs node q len steps F bp bw R"
  using assms by (auto simp add: ran_def intro: carried_trans split: prod.splits)

lemma ran_stop:
  assumes "carried fs fs' q"
    and "indirect node' = indirect node" "valid node' = valid node" "isize node' = isize node"
    and "\<And>more. run (steps @ more) F bp len bw = bw'"
  shows "ran fs node q len steps F bp bw (True, fs', node', bp', bw')"
  using assms by (simp add: ran_def)

lemma write_direct_run:
  assumes "ready fs" and "distinct is" and "\<forall>i\<in>set is. i < POINTERS_PER_INODE"
    and "length (direct node) = POINTERS_PER_INODE"
    and "q \<notin> direct_refs node" and "\<not> bitmap_get fs q"
  shows "ran fs node q len (map (\<lambda>i. (direct node ! i = 0, True)) is) (free_count fs) bp bw
     (write_direct is uninit data len fs node bp bw)"
  using assms
proof (induction "is" arbitrary: fs node bp bw)
  case Nil
  then show ?case by (simp add: ran_def carried_refl)
next
  case (Cons i rest)
  note rd = Cons.prems(1) and l5 = Cons.prems(4) and q1 = Cons.prems(5) and q2 = Cons.prems(6)
  from Cons.prems have i5: "i < POINTERS_PER_INODE" and irest: "i \<notin> set rest"
    and drest: "distinct rest" and rest5: "\<forall>i\<in>set rest. i < POINTERS_PER_INODE"
    by simp_all
  define tw where "tw = write_count bp len bw"
  let ?steps = "map (\<lambda>i. (direct node ! i = 0, True)) (i # rest)"
  text \<open>What happens once the block of entry \<open>i\<close> is there, in \<open>node1\<close> on \<open>fs1\<close>.\<close>
  have go: "ran fs node q len ?steps (free_count fs) bp bw
      (write_direct (i # rest) uninit data len fs node bp bw)"
    if a: "alloc_direct fs node i = (False, fs1, node1)"
      and c1: "carried fs fs1 q"
      and n1: "indirect node1 = indirect node" "valid node1 = valid node" "isize node1 = isize node"
        "length (direct node1) = POINTERS_PER_INODE"
      and same: "\<forall>j\<in>set rest. direct node1 ! j = direct node ! j"
      and q3: "q \<notin> direct_refs node1" and nz: "direct node1 ! i \<noteq> 0"
      and f1: "free_count fs1 = (if direct node ! i = 0 then free_count fs - 1 else free_count fs)"
      and can: "direct node ! i = 0 \<longrightarrow> 0 < free_count fs"
    for fs1 node1
  proof -
    define p where "p = unat (direct node1 ! i)"
    define fs2 where "fs2 = write_block uninit fs1 p data bw tw"
    have "p \<in> direct_refs node1"
      using i5 nz by (auto simp add: direct_refs_def p_def)
    with q3 have qp: "q \<noteq> p" by auto
    from c1 have r1: "ready fs1" and b1: "\<not> bitmap_get fs1 q" by (simp_all add: carried_def)
    have "carried fs1 fs2 q" unfolding fs2_def using r1 b1 qp by (rule carried_write_block)
    with c1 have c2: "carried fs fs2 q" by (rule carried_trans)
    have f2: "free_count fs2 = free_count fs1" unfolding fs2_def by (rule free_count_write_block)
    show ?thesis
    proof (cases "bw + tw = len")
      case True
      then have e: "write_direct (i # rest) uninit data len fs node bp bw = (True, fs2, node1, bp, bw + tw)"
        unfolding write_direct_go [OF a] by (simp add: tw_def fs2_def p_def)
      have h: "run (?steps @ more) (free_count fs) bp len bw = bw + tw" for more
        using True can by (auto simp add: tw_def)
      show ?thesis
        unfolding e by (rule ran_stop [OF c2 n1(1,2,3) h])
    next
      case False
      then have e: "write_direct (i # rest) uninit data len fs node bp bw =
          write_direct rest uninit data len fs2 node1 0 (bw + tw)"
        unfolding write_direct_go [OF a] by (simp add: tw_def fs2_def p_def)
      from c2 have r2: "ready fs2" and b2: "\<not> bitmap_get fs2 q" by (simp_all add: carried_def)
      have m: "map (\<lambda>i. (direct node1 ! i = 0, True)) rest = map (\<lambda>i. (direct node ! i = 0, True)) rest"
        using same by simp
      have ih: "ran fs2 node1 q len (map (\<lambda>i. (direct node ! i = 0, True)) rest) (free_count fs1) 0 (bw + tw)
          (write_direct rest uninit data len fs2 node1 0 (bw + tw))"
        using Cons.IH [OF r2 drest rest5 n1(4) q3 b2, of 0 "bw + tw"] unfolding m f2 .
      have h: "run (?steps @ more) (free_count fs) bp len bw =
          run (map (\<lambda>i. (direct node ! i = 0, True)) rest @ more) (free_count fs1) 0 len (bw + tw)"
        for more
        using False can f1 by (auto simp add: tw_def)
      show ?thesis
        unfolding e by (rule ran_next [OF ih c2 n1(1,2,3) h])
    qed
  qed
  show ?case
  proof (cases "direct node ! i = 0")
    case False
    have a: "alloc_direct fs node i = (False, fs, node)" using False by (rule alloc_direct_none)
    show ?thesis
      by (rule go [OF a carried_refl [OF rd q2] refl refl refl l5 _ q1 False]) (use False in simp_all)
  next
    case need: True
    show ?thesis
    proof (cases "free_count fs = 0")
      case True
      have e: "write_direct (i # rest) uninit data len fs node bp bw = (True, fs, node, bp, bw)"
        using alloc_direct_out [OF need True] by (rule write_direct_stop)
      have h: "run (?steps @ more) (free_count fs) bp len bw = bw" for more
        using need True by simp
      show ?thesis
        unfolding e by (rule ran_stop [OF carried_refl [OF rd q2] refl refl refl h])
    next
      case False
      then have f: "0 < free_count fs" by simp
      from alloc_direct_take [OF rd need f] obtain k fs1 where
        t: "took fs k fs1"
        and a: "alloc_direct fs node i = (False, fs1, node\<lparr>direct := (direct node)[i := word_of_nat k]\<rparr>)"
        by blast
      let ?node1 = "node\<lparr>direct := (direct node)[i := word_of_nat k]\<rparr>"
      from t have k: "0 < k" "k < unat (sb_blocks (meta_data fs))" by (simp_all add: took_def)
      have uk: "unat (word_of_nat k :: uint32) = k" using k(2) by (rule unat_below)
      from took_other [OF t q2] have qk: "q \<noteq> k" by simp
      have q3: "q \<notin> direct_refs ?node1"
        using q1 qk by (intro direct_refs_update) (simp_all add: uk)
      have "unat (direct ?node1 ! i) = k" using i5 l5 uk by simp
      with k(1) have nz: "direct ?node1 ! i \<noteq> 0" by (auto simp add: unat_eq_0 [symmetric] simp del: unat_eq_0)
      have same: "\<forall>j\<in>set rest. direct ?node1 ! j = direct node ! j"
      proof
        fix j assume "j \<in> set rest"
        with irest have "i \<noteq> j" by auto
        then show "direct ?node1 ! j = direct node ! j" by simp
      qed
      from t have f1: "free_count fs1 = free_count fs - 1" by (simp add: took_def)
      show ?thesis
        by (rule go [OF a carried_took [OF t q2] _ _ _ _ same q3 nz])
          (use l5 need f f1 in simp_all)
    qed
  qed
qed

subsection \<open>The indirect range\<close>

lemma held_refl: "ready fs \<Longrightarrow> held fs fs"
  by (simp add: held_def)

lemma held_trans: "held fs fs1 \<Longrightarrow> held fs1 fs2 \<Longrightarrow> held fs fs2"
  by (simp add: held_def)

lemma held_took: "took fs k fs1 \<Longrightarrow> held fs fs1"
  by (simp add: held_def took_def)

lemma held_write_block: "ready fs \<Longrightarrow> held fs (write_block uninit fs p data bw tw)"
  by (simp add: held_def ready_write_block write_block_frame)

lemma held_disk_write: "ready fs \<Longrightarrow> held fs (fs\<lparr>disk := snd (disk_write (disk fs) p b)\<rparr>)"
  by (simp add: held_def ready_def dk_simps)

lemma held_disk_read: "ready fs \<Longrightarrow> held fs (fs\<lparr>disk := snd (disk_read (disk fs) p)\<rparr>)"
  by (simp add: held_def ready_def dk_simps)

lemma free_count_disk [simp]: "free_count (fs\<lparr>disk := d\<rparr>) = free_count fs"
proof -
  have "bitmap_get (fs\<lparr>disk := d\<rparr>) = bitmap_get fs" by (rule ext) simp
  then show ?thesis by (simp add: free_count_def)
qed

lemma ranp_next:
  assumes "ranp fsa len stepsa Fa bpa bwa R" and "held fs fsa"
    and "run steps F bp len bw = run stepsa Fa bpa len bwa"
  shows "ranp fs len steps F bp bw R"
  using assms by (auto simp add: ranp_def intro: held_trans split: prod.splits)

lemma ranp_stop:
  assumes "held fs fs'" and "run steps F bp len bw = bw'"
  shows "ranp fs len steps F bp bw (fs', bw')"
  using assms by (simp add: ranp_def)

lemma alloc_pointer_none:
  "block_pointers ind i \<noteq> 0 \<Longrightarrow> alloc_pointer fs ip ind i = (False, fs, ind)"
  by (simp add: alloc_pointer_def)

lemma alloc_pointer_out:
  "block_pointers ind i = 0 \<Longrightarrow> free_count fs = 0 \<Longrightarrow> alloc_pointer fs ip ind i = (True, fs, ind)"
  by (simp add: alloc_pointer_def free_count_zero)

lemma alloc_pointer_take:
  assumes r: "ready fs" and z: "block_pointers ind i = 0" and f: "0 < free_count fs"
  shows "\<exists>k fs1. 0 < k \<and> k < unat (sb_blocks (meta_data fs)) \<and> held fs fs1 \<and>
     free_count fs1 = free_count fs - 1 \<and>
     alloc_pointer fs ip ind i = (False, fs1, set_block_pointers ind i (word_of_nat k))"
proof -
  from free_count_take [OF r f] obtain k where
    k: "fst (fs_find_free fs) = int k" "took fs k (snd (fs_find_free fs))" by blast
  let ?fs1 = "snd (fs_find_free fs)"
  let ?fs2 = "?fs1\<lparr>disk := snd (disk_write (disk ?fs1) ip (set_block_pointers ind i (word_of_nat k)))\<rparr>"
  from k(2) have k0: "0 < k" "k < unat (sb_blocks (meta_data fs))" and r1: "ready ?fs1"
    and f1: "free_count ?fs1 = free_count fs - 1"
    by (simp_all add: took_def)
  have "held fs ?fs1" using k(2) by (rule held_took)
  moreover have "held ?fs1 ?fs2" using r1 by (rule held_disk_write)
  ultimately have h: "held fs ?fs2" by (rule held_trans)
  have "alloc_pointer fs ip ind i = (False, ?fs2, set_block_pointers ind i (word_of_nat k))"
    using z k(1) k0(1) by (simp add: alloc_pointer_def case_prod_beta)
  with k0 h f1 show ?thesis
    by (intro exI [of _ k] exI [of _ ?fs2]) simp
qed

lemma write_pointers_stop:
  "alloc_pointer fs ip ind i = (True, fs1, ind1) \<Longrightarrow>
   write_pointers (i # rest) uninit data len ip fs ind bp bw = (fs1, bw)"
  by simp

lemma write_pointers_go:
  "alloc_pointer fs ip ind i = (False, fs1, ind1) \<Longrightarrow>
   write_pointers (i # rest) uninit data len ip fs ind bp bw =
     (if bw + write_count bp len bw = len
      then (write_block uninit fs1 (unat (block_pointers ind1 i)) data bw (write_count bp len bw),
            bw + write_count bp len bw)
      else write_pointers rest uninit data len ip
             (write_block uninit fs1 (unat (block_pointers ind1 i)) data bw (write_count bp len bw))
             ind1 0 (bw + write_count bp len bw))"
  by (simp add: Let_def)

lemma write_pointers_run:
  assumes "ready fs" and "distinct is"
  shows "ranp fs len (map (\<lambda>l. (block_pointers ind l = 0, True)) is) (free_count fs) bp bw
     (write_pointers is uninit data len ip fs ind bp bw)"
  using assms
proof (induction "is" arbitrary: fs ind bp bw)
  case Nil
  then show ?case by (simp add: ranp_def held_refl)
next
  case (Cons i rest)
  note rd = Cons.prems(1)
  from Cons.prems have irest: "i \<notin> set rest" and drest: "distinct rest" by simp_all
  define tw where "tw = write_count bp len bw"
  let ?steps = "map (\<lambda>l. (block_pointers ind l = 0, True)) (i # rest)"
  have go: "ranp fs len ?steps (free_count fs) bp bw
      (write_pointers (i # rest) uninit data len ip fs ind bp bw)"
    if a: "alloc_pointer fs ip ind i = (False, fs1, ind1)"
      and h1: "held fs fs1"
      and same: "\<forall>j\<in>set rest. block_pointers ind1 j = block_pointers ind j"
      and f1: "free_count fs1 = (if block_pointers ind i = 0 then free_count fs - 1 else free_count fs)"
      and can: "block_pointers ind i = 0 \<longrightarrow> 0 < free_count fs"
    for fs1 ind1
  proof -
    define p where "p = unat (block_pointers ind1 i)"
    define fs2 where "fs2 = write_block uninit fs1 p data bw tw"
    from h1 have r1: "ready fs1" by (simp add: held_def)
    have "held fs1 fs2" unfolding fs2_def using r1 by (rule held_write_block)
    with h1 have h2: "held fs fs2" by (rule held_trans)
    have f2: "free_count fs2 = free_count fs1" unfolding fs2_def by (rule free_count_write_block)
    show ?thesis
    proof (cases "bw + tw = len")
      case True
      then have e: "write_pointers (i # rest) uninit data len ip fs ind bp bw = (fs2, bw + tw)"
        unfolding write_pointers_go [OF a] by (simp add: tw_def fs2_def p_def)
      have h: "run ?steps (free_count fs) bp len bw = bw + tw"
        using True can by (auto simp add: tw_def)
      show ?thesis
        unfolding e by (rule ranp_stop [OF h2 h])
    next
      case False
      then have e: "write_pointers (i # rest) uninit data len ip fs ind bp bw =
          write_pointers rest uninit data len ip fs2 ind1 0 (bw + tw)"
        unfolding write_pointers_go [OF a] by (simp add: tw_def fs2_def p_def)
      from h2 have r2: "ready fs2" by (simp add: held_def)
      have m: "map (\<lambda>l. (block_pointers ind1 l = 0, True)) rest =
          map (\<lambda>l. (block_pointers ind l = 0, True)) rest"
        using same by simp
      have ih: "ranp fs2 len (map (\<lambda>l. (block_pointers ind l = 0, True)) rest) (free_count fs1) 0 (bw + tw)
          (write_pointers rest uninit data len ip fs2 ind1 0 (bw + tw))"
        using Cons.IH [OF r2 drest, of ind1 0 "bw + tw"] unfolding m f2 .
      have h: "run ?steps (free_count fs) bp len bw =
          run (map (\<lambda>l. (block_pointers ind l = 0, True)) rest) (free_count fs1) 0 len (bw + tw)"
        using False can f1 by (auto simp add: tw_def)
      show ?thesis
        unfolding e by (rule ranp_next [OF ih h2 h])
    qed
  qed
  show ?case
  proof (cases "block_pointers ind i = 0")
    case False
    have a: "alloc_pointer fs ip ind i = (False, fs, ind)" using False by (rule alloc_pointer_none)
    show ?thesis
      by (rule go [OF a held_refl [OF rd]]) (use False in simp_all)
  next
    case need: True
    show ?thesis
    proof (cases "free_count fs = 0")
      case True
      have e: "write_pointers (i # rest) uninit data len ip fs ind bp bw = (fs, bw)"
        using alloc_pointer_out [OF need True] by (rule write_pointers_stop)
      have h: "run ?steps (free_count fs) bp len bw = bw"
        using need True by simp
      show ?thesis
        unfolding e by (rule ranp_stop [OF held_refl [OF rd] h])
    next
      case False
      then have f: "0 < free_count fs" by simp
      from alloc_pointer_take [OF rd need f, of ip] obtain k fs1 where
        k: "0 < k" and h1: "held fs fs1" and f1: "free_count fs1 = free_count fs - 1"
        and a: "alloc_pointer fs ip ind i = (False, fs1, set_block_pointers ind i (word_of_nat k))"
        by blast
      have same: "\<forall>j\<in>set rest. block_pointers (set_block_pointers ind i (word_of_nat k)) j =
          block_pointers ind j"
      proof
        fix j assume "j \<in> set rest"
        with irest have "j \<noteq> i" by auto
        then show "block_pointers (set_block_pointers ind i (word_of_nat k)) j = block_pointers ind j"
          by (simp add: block_pointers_set)
      qed
      show ?thesis
        by (rule go [OF a h1 same]) (use need f f1 in simp_all)
    qed
  qed
qed

lemma to_int_small: "n < 2 ^ 31 \<Longrightarrow> to_int n = int n"
  by (simp add: to_int_def signed_of_nat signed_take_bit_int_eq_self)

lemma write_indirect_run:
  assumes rd: "ready fs" and c: "c - POINTERS_PER_INODE < 2 ^ 31"
    and q: "indirect node \<noteq> 0 \<longrightarrow> unat (indirect node) < dk_blocks (disk fs)"
  shows "held fs (fst (write_indirect uninit data len c fs node bp bw)) \<and>
     valid (fst (snd (write_indirect uninit data len c fs node bp bw))) = valid node \<and>
     isize (fst (snd (write_indirect uninit data len c fs node bp bw))) = isize node \<and>
     snd (snd (write_indirect uninit data len c fs node bp bw)) =
       run ((indirect node = 0, False) #
            map (\<lambda>l. (indirect node = 0 \<or>
                        block_pointers (dk_image (disk fs) (unat (indirect node))) l = 0, True))
              [c - POINTERS_PER_INODE..<POINTERS_PER_BLOCK])
         (free_count fs) bp len bw"
proof -
  have ti: "to_int (c - POINTERS_PER_INODE) = int (c - POINTERS_PER_INODE)"
    using c by (rule to_int_small)
  have walk: "held fs0 (fst (write_indirect uninit data len c fs node bp bw)) \<and>
      snd (snd (write_indirect uninit data len c fs node bp bw)) =
        run (map (\<lambda>l. (block_pointers ind l = 0, True)) [c - POINTERS_PER_INODE..<POINTERS_PER_BLOCK])
          (free_count fs1) bp len bw \<and>
      fst (snd (write_indirect uninit data len c fs node bp bw)) = node1"
    if a: "alloc_indirect fs node = (False, fs1, node1)" and h1: "held fs0 fs1"
      and r: "fst (disk_read (disk fs1) (unat (indirect node1))) = Some ind"
    for fs0 fs1 node1 ind
  proof -
    let ?fs2 = "fs1\<lparr>disk := snd (disk_read (disk fs1) (unat (indirect node1)))\<rparr>"
    from h1 have r1: "ready fs1" by (simp add: held_def)
    then have "held fs1 ?fs2" by (rule held_disk_read)
    with h1 have h2: "held fs0 ?fs2" by (rule held_trans)
    then have r2: "ready ?fs2" by (simp add: held_def)
    have "ranp ?fs2 len (map (\<lambda>l. (block_pointers ind l = 0, True))
          [c - POINTERS_PER_INODE..<POINTERS_PER_BLOCK]) (free_count ?fs2) bp bw
        (write_pointers [c - POINTERS_PER_INODE..<POINTERS_PER_BLOCK] uninit data len
           (unat (indirect node1)) ?fs2 ind bp bw)"
      using r2 by (rule write_pointers_run) simp
    with h2 show ?thesis
      by (auto simp add: write_indirect_def a r ti Let_def case_prod_beta ranp_def
          intro: held_trans split: prod.splits simp del: write_pointers.simps)
  qed
  show ?thesis
  proof (cases "indirect node = 0")
    case False
    have a: "alloc_indirect fs node = (False, fs, node)"
      using False by (simp add: alloc_indirect_def)
    from rd have ok: "dk_ok (disk fs)" by (simp add: ready_def)
    have r: "fst (disk_read (disk fs) (unat (indirect node))) =
        Some (dk_image (disk fs) (unat (indirect node)))"
      using q False ok by (simp add: dk_simps)
    from walk [OF a held_refl [OF rd] r] False show ?thesis by simp
  next
    case need: True
    show ?thesis
    proof (cases "free_count fs = 0")
      case True
      then have "alloc_indirect fs node = (True, fs, node)"
        using need by (simp add: alloc_indirect_def free_count_zero)
      with need True rd show ?thesis
        by (simp add: write_indirect_def held_refl)
    next
      case False
      then have f: "0 < free_count fs" by simp
      from free_count_take [OF rd f] obtain k where
        k: "fst (fs_find_free fs) = int k" "took fs k (snd (fs_find_free fs))" by blast
      let ?fs1 = "snd (fs_find_free fs)"
      let ?node1 = "node\<lparr>indirect := word_of_nat k\<rparr>"
      from k(2) have k0: "0 < k" "k < unat (sb_blocks (meta_data fs))" and r1: "ready ?fs1"
        and f1: "free_count ?fs1 = free_count fs - 1"
        and img: "dk_image (disk ?fs1) = (dk_image (disk fs))(k := empty_block)"
        and bl: "dk_blocks (disk ?fs1) = dk_blocks (disk fs)"
        by (simp_all add: took_def)
      have uk: "unat (word_of_nat k :: uint32) = k" using k0(2) by (rule unat_below)
      have a: "alloc_indirect fs node = (False, ?fs1, ?node1)"
        using need k(1) k0(1) by (simp add: alloc_indirect_def case_prod_beta)
      from rd k0(2) have "k < dk_blocks (disk fs)" by (simp add: ready_def)
      with r1 have r: "fst (disk_read (disk ?fs1) (unat (indirect ?node1))) = Some empty_block"
        by (simp add: uk dk_simps ready_def bl img)
      from walk [OF a held_took [OF k(2)] r] need f show ?thesis
        by (simp add: f1 block_pointers_empty)
    qed
  qed
qed

lemma block_inodes_set_fields:
  "valid (block_inodes (set_block_inodes b j node) j) = valid node"
  "isize (block_inodes (set_block_inodes b j node) j) = isize node"
  by (simp_all add: block_inodes_def set_block_inodes_def INODE_BYTES_def POINTERS_PER_INODE_def upt5)

lemma ready_load: "ready fs \<Longrightarrow> ready (snd (fs_load_inode fs n))"
  by (simp add: ready_def snd_fs_load_inode)

lemma free_count_load: "free_count (snd (fs_load_inode fs n)) = free_count fs"
proof -
  have "bitmap_get (snd (fs_load_inode fs n)) = bitmap_get fs" by (rule ext) simp
  then show ?thesis by (simp add: free_count_def snd_fs_load_inode)
qed

lemma fs_write_run:
  assumes ld: "fst (fs_load_inode fs n) = Some node"
    and rd: "ready fs"
    and rng: "off div BLOCK_SIZE < 2 ^ 31"
    and wf: "indirect node \<noteq> 0 \<longrightarrow>
        unat (indirect node) < dk_blocks (disk fs) \<and>
        unat (indirect node) \<notin> direct_refs node \<and>
        \<not> bitmap_get fs (unat (indirect node))"
  shows "\<exists>fs3 node3.
     fs_write uninit fs n data len off =
       write_end fs3 n node3 (written node (dk_image (disk fs) (unat (indirect node))) (free_count fs) len off) \<and>
     held fs fs3 \<and> valid node3 = valid node \<and> isize node3 = isize node"
proof -
  define fs1 where "fs1 = snd (fs_load_inode fs n)"
  define c where "c = off div BLOCK_SIZE"
  define bp where "bp = off mod BLOCK_SIZE"
  define q where "q = unat (indirect node)"
  define ind where "ind = dk_image (disk fs) q"
  define tail where "tail c' = (indirect node = 0, False) #
      map (\<lambda>l. (indirect node = 0 \<or> block_pointers ind l = 0, True))
        [c' - POINTERS_PER_INODE..<POINTERS_PER_BLOCK]" for c'
  have r1: "ready fs1" unfolding fs1_def using rd by (rule ready_load)
  have f1: "free_count fs1 = free_count fs" unfolding fs1_def by (rule free_count_load)
  have h1: "held fs fs1" using r1 by (simp add: held_def fs1_def snd_fs_load_inode)
  have i1: "dk_image (disk fs1) = dk_image (disk fs)" by (simp add: fs1_def snd_fs_load_inode)
  from fs_load_inode_Some [OF ld] have l5: "length (direct node) = POINTERS_PER_INODE"
    by (simp add: slot_def length_direct_block_inodes)
  have w: "written node ind (free_count fs) len off =
      run (map (\<lambda>i. (direct node ! i = 0, True)) [c..<POINTERS_PER_INODE] @ tail c) (free_count fs) bp len 0"
    unfolding tail_def c_def bp_def by (simp add: run_written [symmetric] write_steps_def)
  have c31: "c' - POINTERS_PER_INODE < 2 ^ 31" if "c' \<le> c" for c'
    using rng that by (simp add: c_def)
  show ?thesis
  proof (cases "c < POINTERS_PER_INODE")
    case False
    then have t: "[c..<POINTERS_PER_INODE] = []" by simp
    have q1: "indirect node \<noteq> 0 \<longrightarrow> unat (indirect node) < dk_blocks (disk fs1)"
      using wf h1 by (simp add: held_def)
    note wi = write_indirect_run [OF r1 c31 [OF order_refl] q1, of uninit data len bp 0]
    define R where "R = write_indirect uninit data len c fs1 node bp 0"
    have e: "fs_write uninit fs n data len off = write_end (fst R) n (fst (snd R)) (snd (snd R))"
      using False ld
      by (simp add: fs_write_def Let_def case_prod_beta c_def bp_def fs1_def R_def)
    have "snd (snd R) = written node ind (free_count fs) len off"
      unfolding w t using wi by (simp add: R_def tail_def i1 f1 ind_def q_def del: run.simps)
    moreover have "held fs (fst R)" using wi h1 by (auto simp add: R_def intro: held_trans)
    ultimately show ?thesis
      using wi unfolding e ind_def q_def by (intro exI [of _ "fst R"] exI [of _ "fst (snd R)"]) (simp add: R_def)
  next
    case True
    define D where "D = write_direct [c..<POINTERS_PER_INODE] uninit data len fs1 node bp 0"
    have qn: "q \<notin> direct_refs node"
    proof (cases "indirect node = 0")
      case True
      then show ?thesis by (auto simp add: q_def direct_refs_def unat_eq_0)
    next
      case False
      with wf show ?thesis by (simp add: q_def)
    qed
    have qb: "\<not> bitmap_get fs1 q"
    proof (cases "indirect node = 0")
      case True
      with rd show ?thesis by (simp add: q_def fs1_def ready_def)
    next
      case False
      with wf show ?thesis by (simp add: q_def fs1_def)
    qed
    have "ran fs1 node q len (map (\<lambda>i. (direct node ! i = 0, True)) [c..<POINTERS_PER_INODE])
        (free_count fs1) bp 0 D"
      unfolding D_def by (rule write_direct_run [OF r1 _ _ l5 qn qb]) simp_all
    then obtain stop fs2 node2 bp2 bw2 where
      d: "D = (stop, fs2, node2, bp2, bw2)"
      and c2: "carried fs1 fs2 q"
      and n2: "indirect node2 = indirect node" "valid node2 = valid node" "isize node2 = isize node"
      and r2: "\<forall>more. run (map (\<lambda>i. (direct node ! i = 0, True)) [c..<POINTERS_PER_INODE] @ more)
          (free_count fs1) bp len 0 = (if stop then bw2 else run more (free_count fs2) bp2 len bw2)"
      by (cases D) (auto simp add: ran_def)
    from c2 have rd2: "ready fs2" and h2: "held fs1 fs2"
      and i2: "dk_image (disk fs2) q = dk_image (disk fs1) q"
      by (simp_all add: carried_def held_def)
    from h1 h2 have h02: "held fs fs2" by (rule held_trans)
    show ?thesis
    proof (cases stop)
      case True
      have e: "fs_write uninit fs n data len off = write_end fs2 n node2 bw2"
        using \<open>c < POINTERS_PER_INODE\<close> ld d True
        by (simp add: fs_write_def Let_def case_prod_beta c_def [symmetric] bp_def [symmetric]
            fs1_def [symmetric] D_def [symmetric])
      have "bw2 = written node ind (free_count fs) len off"
        unfolding w using r2 True f1 by simp
      with h02 n2 show ?thesis
        unfolding e ind_def q_def by (intro exI [of _ fs2] exI [of _ node2]) simp
    next
      case False
      define R where "R = write_indirect uninit data len POINTERS_PER_INODE fs2 node2 bp2 bw2"
      have e: "fs_write uninit fs n data len off = write_end (fst R) n (fst (snd R)) (snd (snd R))"
        using \<open>c < POINTERS_PER_INODE\<close> ld d False
        by (simp add: fs_write_def Let_def case_prod_beta c_def [symmetric] bp_def [symmetric]
            fs1_def [symmetric] D_def [symmetric] R_def)
      have q2: "indirect node2 \<noteq> 0 \<longrightarrow> unat (indirect node2) < dk_blocks (disk fs2)"
        using wf h02 n2 by (simp add: held_def)
      have "POINTERS_PER_INODE - POINTERS_PER_INODE < (2::nat) ^ 31" by simp
      note wi = write_indirect_run [OF rd2 this q2, of uninit data len bp2 bw2, folded R_def]
      have t: "tail c = tail POINTERS_PER_INODE"
        using \<open>c < POINTERS_PER_INODE\<close> by (simp add: tail_def)
      have a: "snd (snd R) = run (tail POINTERS_PER_INODE) (free_count fs2) bp2 len bw2"
        using wi i2 by (simp add: tail_def n2 i1 ind_def q_def del: run.simps)
      have "snd (snd R) = written node ind (free_count fs) len off"
        unfolding w t a using r2 [rule_format, of "tail POINTERS_PER_INODE"] False
        by (simp add: f1 del: run.simps)
      moreover have "held fs (fst R)" using wi h02 by (auto intro: held_trans)
      ultimately show ?thesis
        using wi n2 unfolding e ind_def q_def
        by (intro exI [of _ "fst R"] exI [of _ "fst (snd R)"]) simp
    qed
  qed
qed

lemma fs_write_count:
  assumes ld: "fst (fs_load_inode fs n) = Some node"
    and rd: "ready fs"
    and rng: "off div BLOCK_SIZE < 2 ^ 31"
    and wf: "indirect node \<noteq> 0 \<longrightarrow>
        unat (indirect node) < dk_blocks (disk fs) \<and>
        unat (indirect node) \<notin> direct_refs node \<and>
        \<not> bitmap_get fs (unat (indirect node))"
  shows "fst (fs_write uninit fs n data len off) =
       int (written node (dk_image (disk fs) (unat (indirect node))) (free_count fs) len off)"
  using fs_write_run [OF ld rd rng wf, of uninit data len] by (auto simp add: write_end_eq)

lemma fs_write_bounds:
  assumes ld: "fst (fs_load_inode fs n) = Some node"
  shows "0 \<le> fst (fs_write uninit fs n data len off) \<and> fst (fs_write uninit fs n data len off) \<le> int len"
  using fs_write_shape [OF ld, of uninit data len off] by (auto simp add: write_end_eq)

subsection \<open>File systems W, I and U\<close>

lemma fs_w_obs:
  "dk_ok (disk fs_w)" "dk_blocks (disk fs_w) = 10"
  "meta_data fs_w = block_super (sb_block 10)"
  "bitmap_get fs_w i = (i = 3 \<or> i = 4)"
  "fst (fs_load_inode fs_w 0) = Some (file_node 5 [2, 0, 0, 0, 0] 0)"
  by (simp_all add: fs_w_def mounted_def dev_a_def bitmap_get_def dk_blocks_def dk_ok_def device_def
      fst_fs_load_inode slot_block_def INODES_PER_BLOCK_def slot_def slot_index_def dk_image_def
      block_inodes_set_same file_node_def POINTERS_PER_INODE_def)

lemma ready_fs_w: "ready fs_w" "free_count fs_w = 2"
  by (simp_all add: ready_def free_count_def fs_w_obs block_super_sb_block upt10)

lemma fs_i_obs:
  "dk_ok (disk (fs_i ind fb))" "dk_blocks (disk (fs_i ind fb)) = 10"
  "meta_data (fs_i ind fb) = block_super (sb_block 10)"
  "bitmap_get (fs_i ind fb) i = fb i"
  "fst (fs_load_inode (fs_i ind fb) 0) = Some (file_node 20480 [2, 3, 4, 5, 6] ind)"
  "dk_image (disk (fs_i ind fb)) 7 = wr32 empty_block 0 8"
  by (simp_all add: fs_i_def mounted_def dev_i_def bitmap_get_def dk_blocks_def dk_ok_def device_def
      fst_fs_load_inode slot_block_def INODES_PER_BLOCK_def slot_def slot_index_def dk_image_def
      block_inodes_set_same file_node_def POINTERS_PER_INODE_def)

lemma ready_fs_i:
  "ready (fs_i ind (\<lambda>i. i = 9))" "free_count (fs_i ind (\<lambda>i. i = 9)) = 1"
  "ready (fs_i ind (\<lambda>_. False))" "free_count (fs_i ind (\<lambda>_. False)) = 0"
  by (simp_all add: ready_def free_count_def fs_i_obs block_super_sb_block upt10)

lemma upt_pointers:
  "[0..<POINTERS_PER_BLOCK] = 0 # Suc 0 # Suc (Suc 0) # [Suc (Suc (Suc 0))..<POINTERS_PER_BLOCK]"
proof -
  have p: "Suc (Suc 0) < POINTERS_PER_BLOCK" by (simp add: POINTERS_PER_BLOCK_def)
  then show ?thesis by (simp add: upt_conv_Cons)
qed

lemma written_fs_w: "written (file_node 5 [2, 0, 0, 0, 0] 0) ind 2 20480 0 = 12288"
  by (simp add: written_def write_steps_def file_node_def POINTERS_PER_INODE_def upt5 span_def
      BLOCK_SIZE_def)

lemma written_fs_i0: "written (file_node 20480 [2, 3, 4, 5, 6] 0) ind 0 30000 0 = 20480"
  by (simp add: written_def write_steps_def file_node_def POINTERS_PER_INODE_def upt5 span_def
      BLOCK_SIZE_def)

lemma written_fs_i7:
  "written (file_node 20480 [2, 3, 4, 5, 6] 7) (wr32 empty_block 0 8) (Suc 0) 12288 20480 = 8192"
  by (simp add: written_def write_steps_def file_node_def POINTERS_PER_INODE_def span_def
      BLOCK_SIZE_def upt_pointers block_pointers_def)

lemma direct_refs_fs_i: "7 \<notin> direct_refs (file_node 20480 [2, 3, 4, 5, 6] 7)"
proof -
  have "unat (([2, 3, 4, 5, 6] :: uint32 list) ! j) \<noteq> 7" if "j < 5" for j
  proof -
    from that consider "j = 0" | "j = 1" | "j = 2" | "j = 3" | "j = 4" by linarith
    then show ?thesis by cases simp_all
  qed
  then show ?thesis
    by (auto simp add: direct_refs_def file_node_def POINTERS_PER_INODE_def)
qed

lemma fs_u_write:
  "fst (fs_write empty_block fs_u 0 (\<lambda>_. 65) 5000 0) = 4096"
  "dk_ok (disk (snd (fs_write empty_block fs_u 0 (\<lambda>_. 65) 5000 0)))"
  "dk_blocks (disk (snd (fs_write empty_block fs_u 0 (\<lambda>_. 65) 5000 0))) = 10"
  "dk_image (disk (snd (fs_write empty_block fs_u 0 (\<lambda>_. 65) 5000 0))) (Suc 0) =
     set_block_inodes empty_block 0 (file_node 5 [2, 0, 0, 0, 0] 0)"
proof -
  define node where "node = file_node 5 [2, 0, 0, 0, 0] 0"
  define d0 where "d0 = dev_a [False, False, False, True]"
  define d1 where "d1 = d0\<lparr>faults := [False, False, True], reads := 1\<rparr>"
  define d2 where "d2 = d0\<lparr>faults := [False, True], reads := 2\<rparr>"
  define blk where "blk = memcpy empty_block 0 (\<lambda>_. 65) 0 4096"
  define d3 where "d3 = d0\<lparr>faults := [True], reads := 2, writes := 1, image := (image d0)(2 := blk)\<rparr>"
  define d4 where "d4 = d0\<lparr>faults := [], reads := 2, writes := 1, image := (image d0)(2 := blk)\<rparr>"
  define fs1 where "fs1 = fs_u\<lparr>disk := Some d1\<rparr>"
  define fs3 where "fs3 = fs_u\<lparr>disk := Some d3\<rparr>"
  define fs4 where "fs4 = fs_u\<lparr>disk := Some d4\<rparr>"
  have ld: "fs_load_inode fs_u 0 = (Some node, fs1)"
    by (simp add: fs_load_inode_def disk_read_def disk_sanity_check_def transfer_fails_def
        after_transfer_def fs_u_def mounted_def dev_a_def device_def INODES_PER_BLOCK_def
        block_inodes_set_same file_node_def POINTERS_PER_INODE_def node_def fs1_def d1_def d0_def)
  have wb: "write_block empty_block fs1 2 (\<lambda>_. 65) 0 4096 = fs3"
    by (simp add: write_block_def disk_read_def disk_write_def disk_sanity_check_def transfer_fails_def
        after_transfer_def fs_u_def mounted_def dev_a_def device_def fs1_def fs3_def d1_def d3_def d0_def
        blk_def)
  have nf: "no_free fs3"
    by (simp add: no_free_def fs3_def fs_u_def mounted_def bitmap_get_def)
  have u: "[0..<POINTERS_PER_INODE] = 0 # 1 # [2..<POINTERS_PER_INODE]"
    by (simp add: POINTERS_PER_INODE_def upt5 upt_conv_Cons)
  have wd: "write_direct [0..<POINTERS_PER_INODE] empty_block (\<lambda>_. 65) 5000 fs1 node 0 0 =
      (True, fs3, node, 0, 4096)"
    unfolding u
    by (simp add: alloc_direct_def node_def file_node_def write_count_def BLOCK_SIZE_def wb [unfolded node_def file_node_def]
        no_free_find_free [OF nf] Let_def)
  have sv: "fs_save_inode fs3 0 (node\<lparr>isize := isize node + 4096\<rparr>) = (False, fs4)"
    by (simp add: fs_save_inode_def disk_read_def disk_sanity_check_def transfer_fails_def
        after_transfer_def fs_u_def mounted_def dev_a_def device_def INODES_PER_BLOCK_def
        fs3_def fs4_def d3_def d4_def d0_def)
  have e: "fs_write empty_block fs_u 0 (\<lambda>_. 65) 5000 0 = (4096, fs4)"
  proof -
    have p: "0 < POINTERS_PER_INODE" by (simp add: POINTERS_PER_INODE_def)
    show ?thesis by (simp add: fs_write_def ld p wd write_end_def sv)
  qed
  show "fst (fs_write empty_block fs_u 0 (\<lambda>_. 65) 5000 0) = 4096" by (simp add: e)
  show "dk_ok (disk (snd (fs_write empty_block fs_u 0 (\<lambda>_. 65) 5000 0)))"
    by (simp add: e fs4_def d4_def dk_ok_def)
  show "dk_blocks (disk (snd (fs_write empty_block fs_u 0 (\<lambda>_. 65) 5000 0))) = 10"
    by (simp add: e fs4_def d4_def d0_def dk_blocks_def dev_a_def device_def)
  show "dk_image (disk (snd (fs_write empty_block fs_u 0 (\<lambda>_. 65) 5000 0))) (Suc 0) =
     set_block_inodes empty_block 0 (file_node 5 [2, 0, 0, 0, 0] 0)"
    by (simp add: e fs4_def d4_def d0_def dk_image_def dev_a_def device_def)
qed

lemma fs_u_obs:
  "fst (fs_load_inode fs_u 0) = Some (file_node 5 [2, 0, 0, 0, 0] 0)" "no_free fs_u"
  "slot (disk fs_u) 0 = file_node 5 [2, 0, 0, 0, 0] 0"
    apply (simp add: fs_load_inode_def disk_read_def disk_sanity_check_def transfer_fails_def
        after_transfer_def fs_u_def mounted_def dev_a_def device_def INODES_PER_BLOCK_def
        block_inodes_set_same file_node_def POINTERS_PER_INODE_def)
   apply (simp add: no_free_def fs_u_def mounted_def bitmap_get_def)
  apply (simp add: slot_def slot_block_def slot_index_def INODES_PER_BLOCK_def dk_image_def
      fs_u_def mounted_def dev_a_def device_def block_inodes_set_same file_node_def POINTERS_PER_INODE_def)
  done

text \<open>
  Claim C5. For a valid inode, \<^verbatim>\<open>fs_write\<close> never returns the failure value: it
  returns a count between 0 and the length. When no transfer of the device fails, the
  inode loaded afterwards has the size it had before plus that count (in 32 bits). On a
  file system on which no transfer fails, whose bitmap does not offer block 0 and whose
  block count is that of the device, for an offset whose block number fits an \<^verbatim>\<open>int\<close>
  and an inode whose indirect block, if it has one, lies inside the device, is none of
  its direct blocks and is not marked free, the count is \<open>written\<close>: the walk goes
  through the direct pointers, the indirect block and its entries, takes a free block
  for every zero pointer, and stops where it needs a block (for data or for the
  indirect block itself) and none is free; the bytes that fit into the data blocks it
  reached, at most \<open>len\<close>, are returned.
\<close>

theorem C5_short_write:
  assumes ld: "fst (fs_load_inode fs n) = Some node"
  shows "0 \<le> fst (fs_write uninit fs n data len off) \<and>
     fst (fs_write uninit fs n data len off) \<le> int len \<and>
     (dk_ok (disk fs) \<longrightarrow>
        map_option isize (fst (fs_load_inode (snd (fs_write uninit fs n data len off)) n)) =
          Some (isize node + word_of_int (fst (fs_write uninit fs n data len off)))) \<and>
     (ready fs \<and> off div BLOCK_SIZE < 2 ^ 31 \<and>
      (indirect node \<noteq> 0 \<longrightarrow>
         unat (indirect node) < dk_blocks (disk fs) \<and>
         unat (indirect node) \<notin> direct_refs node \<and>
         \<not> bitmap_get fs (unat (indirect node))) \<longrightarrow>
        fst (fs_write uninit fs n data len off) =
          int (written node (dk_image (disk fs) (unat (indirect node))) (free_count fs) len off))"
  using fs_write_bounds [OF ld, of uninit data len off]
    fs_write_accounting [OF _ ld, of uninit data len off]
    fs_write_count [OF ld, of off uninit data len]
  by blast


theorem C5_short_write_witness:
  "fst (fs_load_inode fs_w 0) = Some (file_node 5 [2, 0, 0, 0, 0] 0) \<and>
   ready fs_w \<and> free_count fs_w = 2 \<and>
   fst (fs_write empty_block fs_w 0 (\<lambda>_. 65) 20480 0) = 12288 \<and>
   map_option isize (fst (fs_load_inode (snd (fs_write empty_block fs_w 0 (\<lambda>_. 65) 20480 0)) 0)) =
     Some 12293 \<and>
   fst (fs_load_inode (fs_i 0 (\<lambda>_. False)) 0) = Some (file_node 20480 [2, 3, 4, 5, 6] 0) \<and>
   ready (fs_i 0 (\<lambda>_. False)) \<and> free_count (fs_i 0 (\<lambda>_. False)) = 0 \<and>
   fst (fs_write empty_block (fs_i 0 (\<lambda>_. False)) 0 (\<lambda>_. 65) 30000 0) = 20480 \<and>
   map_option isize
     (fst (fs_load_inode (snd (fs_write empty_block (fs_i 0 (\<lambda>_. False)) 0 (\<lambda>_. 65) 30000 0)) 0)) =
     Some 40960 \<and>
   fst (fs_load_inode (fs_i 7 (\<lambda>i. i = 9)) 0) = Some (file_node 20480 [2, 3, 4, 5, 6] 7) \<and>
   ready (fs_i 7 (\<lambda>i. i = 9)) \<and> free_count (fs_i 7 (\<lambda>i. i = 9)) = 1 \<and>
   7 \<notin> direct_refs (file_node 20480 [2, 3, 4, 5, 6] 7) \<and> \<not> bitmap_get (fs_i 7 (\<lambda>i. i = 9)) 7 \<and>
   fst (fs_write empty_block (fs_i 7 (\<lambda>i. i = 9)) 0 (\<lambda>_. 65) 12288 20480) = 8192 \<and>
   map_option isize
     (fst (fs_load_inode (snd (fs_write empty_block (fs_i 7 (\<lambda>i. i = 9)) 0 (\<lambda>_. 65) 12288 20480)) 0)) =
     Some 28672"
proof -
  have i: "indirect (file_node sz ds ind) = ind" "isize (file_node sz ds ind) = sz" for sz ds ind
    by (simp_all add: file_node_def)
  have r: "(0::nat) div BLOCK_SIZE < 2 ^ 31" "(20480::nat) div BLOCK_SIZE < 2 ^ 31"
    by (simp_all add: BLOCK_SIZE_def)
  note w = C5_short_write [OF fs_w_obs(5), of empty_block "\<lambda>_. 65" 20480 0]
  have w1: "fst (fs_write empty_block fs_w 0 (\<lambda>_. 65) 20480 0) = 12288"
    using w ready_fs_w r by (simp add: i written_fs_w)
  have w2: "map_option isize (fst (fs_load_inode (snd (fs_write empty_block fs_w 0 (\<lambda>_. 65) 20480 0)) 0)) =
     Some 12293"
    using w fs_w_obs(1) by (simp add: w1 i)
  note a = C5_short_write [OF fs_i_obs(5) [of 0 "\<lambda>_. False"], of empty_block "\<lambda>_. 65" 30000 0]
  have a1: "fst (fs_write empty_block (fs_i 0 (\<lambda>_. False)) 0 (\<lambda>_. 65) 30000 0) = 20480"
    using a ready_fs_i r by (simp add: i written_fs_i0)
  have a2: "map_option isize
     (fst (fs_load_inode (snd (fs_write empty_block (fs_i 0 (\<lambda>_. False)) 0 (\<lambda>_. 65) 30000 0)) 0)) =
     Some 40960"
    using a fs_i_obs(1) by (simp add: a1 i)
  note b = C5_short_write [OF fs_i_obs(5) [of 7 "\<lambda>i. i = 9"], of empty_block "\<lambda>_. 65" 12288 20480]
  have b1: "fst (fs_write empty_block (fs_i 7 (\<lambda>i. i = 9)) 0 (\<lambda>_. 65) 12288 20480) = 8192"
    using b ready_fs_i r direct_refs_fs_i by (simp add: i written_fs_i7 fs_i_obs)
  have b2: "map_option isize
     (fst (fs_load_inode (snd (fs_write empty_block (fs_i 7 (\<lambda>i. i = 9)) 0 (\<lambda>_. 65) 12288 20480)) 0)) =
     Some 28672"
    using b fs_i_obs(1) by (simp add: b1 i)
  show ?thesis
    by (simp add: fs_w_obs(5) ready_fs_w fs_i_obs ready_fs_i direct_refs_fs_i w1 w2 a1 a2 b1 b2)
qed

text \<open>
  Claim C5, the size is not always persisted. On file system U (no free block, the
  fourth transfer fails) a write of 5000 bytes to inode 0 at offset 0 fills the one
  block of the file, finds no free block for the next and returns 4096; the read of the
  inode table in \<^verbatim>\<open>fs_save_inode\<close> then fails, the result of the save is dropped
  (line 480), and the inode on the device still has the size 5, which is what
  \<^verbatim>\<open>fs_stat\<close> returns afterwards.
\<close>

theorem C5_short_write_counterexample:
  "fst (fs_load_inode fs_u 0) = Some (file_node 5 [2, 0, 0, 0, 0] 0) \<and> no_free fs_u \<and>
   fst (fs_write empty_block fs_u 0 (\<lambda>_. 65) 5000 0) = 4096 \<and>
   slot (disk (snd (fs_write empty_block fs_u 0 (\<lambda>_. 65) 5000 0))) 0 = file_node 5 [2, 0, 0, 0, 0] 0 \<and>
   fst (fs_stat (snd (fs_write empty_block fs_u 0 (\<lambda>_. 65) 5000 0)) 0) = 5"
proof -
  let ?fs = "snd (fs_write empty_block fs_u 0 (\<lambda>_. 65) 5000 0)"
  have sl: "slot (disk ?fs) 0 = file_node 5 [2, 0, 0, 0, 0] 0"
    by (simp add: slot_def slot_block_def slot_index_def INODES_PER_BLOCK_def fs_u_write(4)
        block_inodes_set_same file_node_def POINTERS_PER_INODE_def)
  have st: "fst (fs_stat ?fs 0) = 5"
    by (simp add: fs_stat_eq fst_fs_load_inode fs_u_write(2,3) sl slot_block_def INODES_PER_BLOCK_def)
      (simp add: file_node_def)
  show ?thesis
    by (simp add: fs_u_obs(1,2) fs_u_write(1) sl st)
qed

end
